theory Spec2Isabelle
  imports Complex_Main "HOL-Library.Log_Nat"
begin

section \<open>JavaScript values used by the plugin\<close>

subsection \<open>Numbers\<close>

text \<open>
  A JavaScript Number is an IEEE 754 binary64 value. Finite values are kept as the exact
  rational they denote; the two signed zeros are identified (the plugin only adds,
  divides by 3 and compares, none of which tells them apart).
\<close>

datatype jsnum = Fin rat | PInf | NInf | NaN

definition pow2 :: "int \<Rightarrow> rat" where
  "pow2 k = (if 0 \<le> k then 2 ^ nat k else 1 / 2 ^ nat (- k))"

text \<open>\<open>ilog2 q\<close> is the binary exponent of a non-zero rational: \<open>2^e \<le> |q| < 2^(e+1)\<close>.\<close>

definition ilog2 :: "rat \<Rightarrow> int" where
  "ilog2 q =
     (let (p, d) = quotient_of \<bar>q\<bar>;
          k = bitlen p - bitlen d
      in if pow2 k \<le> \<bar>q\<bar> then k else k - 1)"

definition round_half_even :: "rat \<Rightarrow> int" where
  "round_half_even m =
     (let n = \<lfloor>m\<rfloor>; r = m - of_int n
      in if r < 1 / 2 then n
         else if 1 / 2 < r then n + 1
         else if even n then n else n + 1)"

text \<open>
  Rounding of an exact result to binary64: 53 significant bits, round to nearest, ties to
  even, gradual underflow below \<open>2^-1022\<close>, overflow to an infinity. The rounded
  magnitude is \<open>n * 2^quantum\<close>; since \<open>bitlen n - 1\<close> is the binary exponent of \<open>n\<close>,
  the overflow test \<open>1025 \<le> quantum + bitlen n\<close> says \<open>2^1024 \<le> n * 2^quantum\<close>.
\<close>

definition rnd :: "rat \<Rightarrow> jsnum" where
  "rnd q =
     (if q = 0 then Fin 0
      else let quantum = max (ilog2 q - 52) (- 1074);
               n = round_half_even (\<bar>q\<bar> / pow2 quantum)
           in if 1025 \<le> quantum + bitlen n then (if 0 < q then PInf else NInf)
              else Fin (if 0 < q then of_int n * pow2 quantum
                        else - (of_int n * pow2 quantum)))"

text \<open>The binary \<open>+\<close> of two Numbers.\<close>

fun jadd :: "jsnum \<Rightarrow> jsnum \<Rightarrow> jsnum" where
  "jadd NaN _ = NaN"
| "jadd _ NaN = NaN"
| "jadd (Fin a) (Fin b) = rnd (a + b)"
| "jadd PInf NInf = NaN"
| "jadd NInf PInf = NaN"
| "jadd PInf _ = PInf"
| "jadd _ PInf = PInf"
| "jadd NInf _ = NInf"
| "jadd _ NInf = NInf"

text \<open>The expression \<open>x / 3\<close>.\<close>

fun jdiv3 :: "jsnum \<Rightarrow> jsnum" where
  "jdiv3 (Fin a) = rnd (a / 3)"
| "jdiv3 PInf = PInf"
| "jdiv3 NInf = NInf"
| "jdiv3 NaN = NaN"

text \<open>The relational operators \<open><\<close> and \<open>>\<close> on Numbers: false as soon as one side is NaN.\<close>

fun jlt :: "jsnum \<Rightarrow> jsnum \<Rightarrow> bool" where
  "jlt NaN _ = False"
| "jlt _ NaN = False"
| "jlt (Fin a) (Fin b) = (a < b)"
| "jlt _ NInf = False"
| "jlt NInf _ = True"
| "jlt PInf _ = False"
| "jlt _ PInf = True"

definition jgt :: "jsnum \<Rightarrow> jsnum \<Rightarrow> bool" where
  "jgt a b = jlt b a"

subsection \<open>Strings\<close>

text \<open>
  A string is a list of characters with codes below 256. The white space of
  \<open>String.prototype.trim\<close> and of numeric coercion in that range: TAB, LF, VT, FF, CR,
  SP and NBSP.
\<close>

definition is_ws :: "char \<Rightarrow> bool" where
  "is_ws c = (c \<in> set [CHR 0x09, CHR 0x0A, CHR 0x0B, CHR 0x0C, CHR 0x0D, CHR 0x20, CHR 0xA0])"

definition trim :: "string \<Rightarrow> string" where
  "trim s = rev (dropWhile is_ws (rev (dropWhile is_ws s)))"

text \<open>\<open>s.replace(/\r?\n|\r/g, ",")\<close>: every CR LF, LF or CR becomes one comma.\<close>

fun replace_breaks :: "string \<Rightarrow> string" where
  "replace_breaks [] = []"
| "replace_breaks [c] = (if c = CHR 0x0D \<or> c = CHR 0x0A then '','' else [c])"
| "replace_breaks (c # d # cs) =
     (if c = CHR 0x0D \<and> d = CHR 0x0A then CHR '','' # replace_breaks cs
      else if c = CHR 0x0D \<or> c = CHR 0x0A then CHR '','' # replace_breaks (d # cs)
      else c # replace_breaks (d # cs))"

text \<open>\<open>s.split(",")\<close>: the empty string splits into one empty token.\<close>

fun split_comma :: "string \<Rightarrow> string list" where
  "split_comma [] = [[]]"
| "split_comma (c # cs) =
     (if c = CHR '','' then [] # split_comma cs
      else (case split_comma cs of t # ts \<Rightarrow> (c # t) # ts | [] \<Rightarrow> [[c]]))"

subsection \<open>Numeric coercion of a string (unary plus)\<close>

definition is_digit :: "char \<Rightarrow> bool" where
  "is_digit c = (48 \<le> (of_char c :: nat) \<and> (of_char c :: nat) \<le> 57)"

text \<open>The value of a digit in a radix up to 16, if it is one.\<close>

definition digit_in :: "nat \<Rightarrow> char \<Rightarrow> nat option" where
  "digit_in radix c =
     (let k = (of_char c :: nat);
          v = (if 48 \<le> k \<and> k \<le> 57 then k - 48
               else if 97 \<le> k \<and> k \<le> 102 then k - 87
               else if 65 \<le> k \<and> k \<le> 70 then k - 55
               else 16)
      in if v < radix then Some v else None)"

definition digits_value :: "nat \<Rightarrow> string \<Rightarrow> nat" where
  "digits_value radix ds = foldl (\<lambda>acc c. acc * radix + (case digit_in radix c of Some v \<Rightarrow> v | None \<Rightarrow> 0)) 0 ds"

definition all_digits :: "nat \<Rightarrow> string \<Rightarrow> bool" where
  "all_digits radix ds = (ds \<noteq> [] \<and> list_all (\<lambda>c. digit_in radix c \<noteq> None) ds)"

text \<open>\<open>0x\<close>, \<open>0o\<close> and \<open>0b\<close> literals (no sign allowed).\<close>

definition parse_radix :: "string \<Rightarrow> nat option" where
  "parse_radix t =
     (case t of
        z # x # ds \<Rightarrow>
          (let radix = (if x = CHR ''x'' \<or> x = CHR ''X'' then 16
                        else if x = CHR ''o'' \<or> x = CHR ''O'' then 8
                        else if x = CHR ''b'' \<or> x = CHR ''B'' then 2 else 0)
           in if z = CHR ''0'' \<and> 0 < radix \<and> all_digits radix ds
              then Some (digits_value radix ds) else None)
      | _ \<Rightarrow> None)"

definition strip_sign :: "string \<Rightarrow> bool \<times> string" where
  "strip_sign s =
     (case s of
        [] \<Rightarrow> (False, [])
      | c # cs \<Rightarrow> if c = CHR ''-'' then (True, cs)
                  else if c = CHR ''+'' then (False, cs) else (False, s))"

text \<open>What follows the mantissa: nothing, or \<open>e\<close>/\<open>E\<close>, an optional sign and digits.\<close>

definition parse_exponent :: "string \<Rightarrow> int option" where
  "parse_exponent s =
     (case s of
        [] \<Rightarrow> Some 0
      | c # cs \<Rightarrow>
          if c = CHR ''e'' \<or> c = CHR ''E''
          then (let (neg, ds) = strip_sign cs
                in if all_digits 10 ds
                   then Some (if neg then - int (digits_value 10 ds) else int (digits_value 10 ds))
                   else None)
          else None)"

definition pow10 :: "int \<Rightarrow> rat" where
  "pow10 k = (if 0 \<le> k then 10 ^ nat k else 1 / 10 ^ nat (- k))"

text \<open>An unsigned decimal literal: \<open>D\<close>, \<open>D.\<close>, \<open>D.D\<close> or \<open>.D\<close>, then the exponent part.\<close>

definition parse_decimal :: "string \<Rightarrow> rat option" where
  "parse_decimal s =
     (let ip = takeWhile is_digit s;
          r1 = dropWhile is_digit s;
          (fp, r2) = (case r1 of
                        [] \<Rightarrow> ([], [])
                      | c # cs \<Rightarrow> if c = CHR ''.''
                                  then (takeWhile is_digit cs, dropWhile is_digit cs)
                                  else ([], r1))
      in if ip = [] \<and> fp = [] then None
         else (case parse_exponent r2 of
                 None \<Rightarrow> None
               | Some e \<Rightarrow> Some (of_nat (digits_value 10 (ip @ fp)) * pow10 (e - int (length fp)))))"

text \<open>
  \<open>+s\<close> for a string \<open>s\<close>: white space is trimmed, the empty string is 0, a string that
  is not a numeric literal is NaN, and the literal's value is rounded to binary64.
\<close>

definition toNumber :: "string \<Rightarrow> jsnum" where
  "toNumber s =
     (let t = trim s
      in if t = [] then Fin 0
         else (case parse_radix t of
                 Some n \<Rightarrow> rnd (of_nat n)
               | None \<Rightarrow>
                   (let (neg, u) = strip_sign t
                    in if u = ''Infinity'' then (if neg then NInf else PInf)
                       else (case parse_decimal u of
                               None \<Rightarrow> NaN
                             | Some q \<Rightarrow> rnd (if neg then - q else q)))))"

section \<open>The accessory (index.js)\<close>

subsection \<open>State\<close>

text \<open>The status constants \<open>LEAK_NOT_DETECTED = 0\<close>, \<open>LEAK_DETECTED = 1\<close>, \<open>NO_FAULT = 0\<close>,
  \<open>GENERAL_FAULT = 1\<close>.\<close>

datatype alert = LEAK_NOT_DETECTED | LEAK_DETECTED

datatype fault = NO_FAULT | GENERAL_FAULT

text \<open>The object \<open>this.state\<close> of class \<open>LeakAlarm\<close>.\<close>

record accessory_state =
  AlertState :: alert
  deviceState :: fault
  sensor1State :: fault
  sensor1Temp :: jsnum
  sensor1Humid :: jsnum
  sensor2State :: fault
  sensor2Temp :: jsnum
  sensor2Humid :: jsnum

text \<open>The state the constructor creates.\<close>

definition initial_state :: accessory_state where
  "initial_state =
     \<lparr> AlertState = LEAK_NOT_DETECTED, deviceState = NO_FAULT,
       sensor1State = NO_FAULT, sensor1Temp = Fin 0, sensor1Humid = Fin 0,
       sensor2State = NO_FAULT, sensor2Temp = Fin 0, sensor2Humid = Fin 0 \<rparr>"

subsection \<open>Reading the token array\<close>

text \<open>An exception thrown inside the timer callback of \<open>pollSensorState\<close>.\<close>

datatype js_error = TypeError

text \<open>\<open>sensorData[i]\<close>: \<open>None\<close> is \<open>undefined\<close>, the value of a read past the end.\<close>

definition tok :: "string list \<Rightarrow> nat \<Rightarrow> string option" where
  "tok sensorData i = (if i < length sensorData then Some (sensorData ! i) else None)"

text \<open>\<open>+sensorData[i]\<close>: \<open>undefined\<close> coerces to NaN.\<close>

definition temp_sample :: "string option \<Rightarrow> jsnum" where
  "temp_sample t = (case t of None \<Rightarrow> NaN | Some s \<Rightarrow> toNumber s)"

text \<open>\<open>+(sensorData[i].slice(0,-1))\<close>: \<open>slice(0,-1)\<close> drops the last character of any
  string (and leaves the empty string empty); on \<open>undefined\<close> the method call throws.\<close>

definition humid_sample :: "string option \<Rightarrow> js_error + jsnum" where
  "humid_sample t = (case t of None \<Rightarrow> Inl TypeError | Some s \<Rightarrow> Inr (toNumber (butlast s)))"

text \<open>The Detected branch, entered with \<open>i\<close> at the status token: three temperatures at
  \<open>i+1..i+3\<close>, three humidities at \<open>i+4..i+6\<close>, then the assignment to the channel
  \<open>thisSensor\<close> (1, anything else is channel 2). A throw happens before any assignment.\<close>

definition read_detected ::
  "string list \<Rightarrow> nat \<Rightarrow> nat \<Rightarrow> accessory_state \<Rightarrow> js_error + accessory_state" where
  "read_detected sensorData i thisSensor st =
     (let thisTemp = jdiv3 (jadd (jadd (temp_sample (tok sensorData (i + 1)))
                                       (temp_sample (tok sensorData (i + 2))))
                                 (temp_sample (tok sensorData (i + 3))))
      in case humid_sample (tok sensorData (i + 4)) of
           Inl e \<Rightarrow> Inl e
         | Inr h1 \<Rightarrow>
        (case humid_sample (tok sensorData (i + 5)) of
           Inl e \<Rightarrow> Inl e
         | Inr h2 \<Rightarrow>
        (case humid_sample (tok sensorData (i + 6)) of
           Inl e \<Rightarrow> Inl e
         | Inr h3 \<Rightarrow>
             (let thisHumid = jdiv3 (jadd (jadd h1 h2) h3)
              in if thisSensor = 1
                 then Inr (st\<lparr>sensor1State := NO_FAULT, sensor1Temp := thisTemp,
                              sensor1Humid := thisHumid\<rparr>)
                 else Inr (st\<lparr>sensor2State := NO_FAULT, sensor2Temp := thisTemp,
                              sensor2Humid := thisHumid\<rparr>)))))"

text \<open>The branch for any other status token.\<close>

definition mark_fault :: "nat \<Rightarrow> accessory_state \<Rightarrow> accessory_state" where
  "mark_fault thisSensor st =
     (if thisSensor = 1 then st\<lparr>sensor1State := GENERAL_FAULT\<rparr>
      else st\<lparr>sensor2State := GENERAL_FAULT\<rparr>)"

subsection \<open>The scan of \<open>pollSensorState\<close>\<close>

text \<open>
  One pass through the body of the \<open>do ... while\<close> loop, from the loop variables
  \<open>(i, thisSensor)\<close> and the state to their values at the end of the body (before the
  \<open>++i\<close> of the loop condition). \<open>thisSensor\<close> is declared before the loop and only ever
  assigned 1 or 2 inside it.
\<close>

definition loop_body ::
  "string list \<Rightarrow> nat \<times> nat \<times> accessory_state \<Rightarrow> js_error + nat \<times> nat \<times> accessory_state" where
  "loop_body sensorData v =
     (case v of (i, thisSensor, st) \<Rightarrow>
        if tok sensorData i = Some ''SHT''
        then (let i1 = i + 1;
                  (thisSensor', i2) =
                     (if tok sensorData i1 = Some ''1'' then (1, i1 + 2)
                      else if tok sensorData i1 = Some ''2'' then (2, i1 + 2)
                      else (thisSensor, i1))
              in if 0 < thisSensor'
                 then if tok sensorData i2 = Some ''Detected''
                      then (case read_detected sensorData i2 thisSensor' st of
                              Inl e \<Rightarrow> Inl e
                            | Inr st' \<Rightarrow> Inr (i2 + 6, thisSensor', st'))
                      else Inr (i2, thisSensor', mark_fault thisSensor' st)
                 else Inr (i2, thisSensor', st))
        else Inr (i + 1, thisSensor, st))"

lemma loop_body_advances:
  "loop_body sensorData (i, thisSensor, st) = Inr (i', thisSensor', st') \<Longrightarrow> i < i'"
  by (auto simp: loop_body_def Let_def split: if_splits sum.splits)

text \<open>
  The loop: the body runs, then \<open>++i < sensorData.length\<close> decides. An exception leaves
  the loop with the state as the earlier iterations left it.
\<close>

function scan_loop ::
  "string list \<Rightarrow> nat \<times> nat \<times> accessory_state \<Rightarrow> js_error option \<times> accessory_state" where
  "scan_loop sensorData (i, thisSensor, st) =
     (case loop_body sensorData (i, thisSensor, st) of
        Inl e \<Rightarrow> (Some e, st)
      | Inr (i', thisSensor', st') \<Rightarrow>
          if Suc i' < length sensorData
          then scan_loop sensorData (Suc i', thisSensor', st')
          else (None, st'))"
  by pat_completeness auto
termination
  by (relation "measure (\<lambda>(sensorData, i, thisSensor, st). length sensorData - i)")
     (auto dest: loop_body_advances)

subsection \<open>The alert rule\<close>

definition update_alert :: "jsnum \<Rightarrow> accessory_state \<Rightarrow> accessory_state" where
  "update_alert alertThreshold st =
     (if AlertState st = LEAK_NOT_DETECTED
      then (if jgt (sensor1Humid st) alertThreshold \<or> jgt (sensor2Humid st) alertThreshold
            then st\<lparr>AlertState := LEAK_DETECTED\<rparr> else st)
      else (if jlt (sensor1Humid st) alertThreshold \<and> jlt (sensor2Humid st) alertThreshold
            then st\<lparr>AlertState := LEAK_NOT_DETECTED\<rparr> else st))"

subsection \<open>The timer callback of \<open>pollSensorState\<close>\<close>

text \<open>
  What the callback does with the text collected in \<open>rawData\<close>: trim, turn line breaks
  into commas, split, scan from \<open>i = 0\<close> and \<open>thisSensor = 0\<close>, apply the alert rule.
  The result says whether the callback ran to its end (\<open>None\<close>), where it calls
  \<open>pollState()\<close>, or was left by an exception, which skips the alert rule and the rest.
\<close>

definition sensorData_of :: "string \<Rightarrow> string list" where
  "sensorData_of rawData = split_comma (replace_breaks (trim rawData))"

definition process_data ::
  "jsnum \<Rightarrow> string \<Rightarrow> accessory_state \<Rightarrow> js_error option \<times> accessory_state" where
  "process_data alertThreshold rawData st =
     (case scan_loop (sensorData_of rawData) (0, 0, st) of
        (Some e, st') \<Rightarrow> (Some e, st')
      | (None, st') \<Rightarrow> (None, update_alert alertThreshold st'))"

subsection \<open>The request of \<open>pollSensorState\<close>\<close>

text \<open>
  What the HTTP client can deliver to the callbacks that \<open>pollSensorState\<close> registers,
  between \<open>page.get\<close> and the firing of the 3-second timer: the response headers with
  their status code, a chunk of the body, the end of the body, a connection error. A
  fetch that times out delivers nothing in that time.
\<close>

datatype http_event = HttpResponse nat | HttpData string | HttpEnd | HttpError

text \<open>
  index.js: the response callback returns at once unless the status is 200, and only
  then are the \<open>data\<close> and \<open>end\<close> listeners attached; a chunk is appended to \<open>rawData\<close>;
  the \<open>end\<close> and \<open>error\<close> callbacks only log. The pair is \<open>rawData\<close> and whether the
  listeners are attached.
\<close>

fun on_event :: "string \<times> bool \<Rightarrow> http_event \<Rightarrow> string \<times> bool" where
  "on_event (rawData, listening) (HttpResponse statusCode) =
     (if statusCode \<noteq> 200 then (rawData, listening) else (rawData, True))"
| "on_event (rawData, listening) (HttpData chunk) =
     (if listening then (rawData @ chunk, listening) else (rawData, listening))"
| "on_event (rawData, listening) HttpEnd = (rawData, listening)"
| "on_event (rawData, listening) HttpError = (rawData, listening)"

text \<open>One poll cycle of index.js: the events of the 3 seconds, then the timer callback.\<close>

definition pollSensorState ::
  "jsnum \<Rightarrow> http_event list \<Rightarrow> accessory_state \<Rightarrow> js_error option \<times> accessory_state" where
  "pollSensorState alertThreshold events st =
     process_data alertThreshold (fst (foldl on_event ([], False) events)) st"

text \<open>
  The variant of the same function in the second copy of the plugin (part_001): the
  callbacks also write \<open>deviceState\<close>, and the timer callback parses and applies the alert
  rule only when \<open>deviceState\<close> is \<open>NO_FAULT\<close>. The scan and the alert rule are the same
  code.
\<close>

fun on_event_part001 ::
  "string \<times> bool \<times> accessory_state \<Rightarrow> http_event \<Rightarrow> string \<times> bool \<times> accessory_state" where
  "on_event_part001 (rawData, listening, st) (HttpResponse statusCode) =
     (if statusCode \<noteq> 200 then (rawData, listening, st\<lparr>deviceState := GENERAL_FAULT\<rparr>)
      else (rawData, True, st\<lparr>deviceState := NO_FAULT\<rparr>))"
| "on_event_part001 (rawData, listening, st) (HttpData chunk) =
     (if listening then (rawData @ chunk, listening, st) else (rawData, listening, st))"
| "on_event_part001 (rawData, listening, st) HttpEnd = (rawData, listening, st)"
| "on_event_part001 (rawData, listening, st) HttpError =
     (rawData, listening, st\<lparr>deviceState := GENERAL_FAULT\<rparr>)"

definition pollSensorState_part001 ::
  "jsnum \<Rightarrow> http_event list \<Rightarrow> accessory_state \<Rightarrow> js_error option \<times> accessory_state" where
  "pollSensorState_part001 alertThreshold events st =
     (case foldl on_event_part001 ([], False, st) events of
        (rawData, listening, st1) \<Rightarrow>
          if deviceState st1 = NO_FAULT then process_data alertThreshold rawData st1
          else (None, st1))"

section \<open>The poll scheduler\<close>

text \<open>
  The two functions the plugin hands to \<open>setTimeout\<close>: the one of \<open>pollState\<close>, which
  calls \<open>pollSensorState\<close> after \<open>pollTimer\<close> seconds, and the one of \<open>pollSensorState\<close>,
  which processes the data after 3 seconds and then calls \<open>pollState\<close>.
\<close>

datatype callback = PollTimer | ProcessTimer

text \<open>
  The part of the event loop the plugin uses: the pending timeouts with their handles,
  the next fresh handle, the field \<open>accessory.stateTimer\<close> (\<open>None\<close> is \<open>undefined\<close> or
  \<open>null\<close>), and the number of requests issued by \<open>page.get\<close> that have not finished.
\<close>

record scheduler =
  timers :: "(nat \<times> callback) list"
  next_handle :: nat
  stateTimer :: "nat option"
  requests :: nat

definition initial_scheduler :: scheduler where
  "initial_scheduler = \<lparr> timers = [], next_handle = 0, stateTimer = None, requests = 0 \<rparr>"

definition clearTimeout :: "nat \<Rightarrow> scheduler \<Rightarrow> scheduler" where
  "clearTimeout h s = s\<lparr>timers := filter (\<lambda>t. fst t \<noteq> h) (timers s)\<rparr>"

text \<open>\<open>setTimeout\<close> returns the handle \<open>next_handle s\<close>.\<close>

definition setTimeout :: "callback \<Rightarrow> scheduler \<Rightarrow> scheduler" where
  "setTimeout cb s =
     s\<lparr>timers := timers s @ [(next_handle s, cb)], next_handle := Suc (next_handle s)\<rparr>"

definition pollState :: "scheduler \<Rightarrow> scheduler" where
  "pollState s =
     (let s1 = (case stateTimer s of
                  None \<Rightarrow> s
                | Some h \<Rightarrow> (clearTimeout h s)\<lparr>stateTimer := None\<rparr>)
      in (setTimeout PollTimer s1)\<lparr>stateTimer := Some (next_handle s1)\<rparr>)"

definition page_get :: "scheduler \<Rightarrow> scheduler" where
  "page_get s = s\<lparr>requests := Suc (requests s)\<rparr>"

text \<open>The synchronous part of \<open>pollSensorState\<close>: issue the request, arm the 3-second
  timer.\<close>

definition pollSensorState_sched :: "scheduler \<Rightarrow> scheduler" where
  "pollSensorState_sched s = setTimeout ProcessTimer (page_get s)"

definition getServices :: "scheduler \<Rightarrow> scheduler" where
  "getServices s = pollState (page_get s)"

text \<open>
  What happens to the scheduler: Homebridge calls \<open>getServices\<close>; a pending timeout
  fires (for the processing callback, with the outcome of its data handling: it reaches
  its last statement \<open>pollState()\<close> only if nothing was thrown); a request finishes.
\<close>

datatype loop_event = GetServices | Fire nat "js_error option" | RequestDone

definition fire :: "nat \<Rightarrow> js_error option \<Rightarrow> scheduler \<Rightarrow> scheduler" where
  "fire h outcome s =
     (case map_of (timers s) h of
        None \<Rightarrow> s
      | Some PollTimer \<Rightarrow> pollSensorState_sched (clearTimeout h s)
      | Some ProcessTimer \<Rightarrow>
          (case outcome of
             None \<Rightarrow> pollState (clearTimeout h s)
           | Some e \<Rightarrow> clearTimeout h s))"

fun step :: "scheduler \<Rightarrow> loop_event \<Rightarrow> scheduler" where
  "step s GetServices = getServices s"
| "step s (Fire h outcome) = fire h outcome s"
| "step s RequestDone = s\<lparr>requests := requests s - 1\<rparr>"

definition run :: "loop_event list \<Rightarrow> scheduler" where
  "run evs = foldl step initial_scheduler evs"

text \<open>The number of open processing windows (cycles between their request and their
  processing).\<close>

definition windows :: "scheduler \<Rightarrow> nat" where
  "windows s = length (filter (\<lambda>t. snd t = ProcessTimer) (timers s))"

definition poll_triggers :: "scheduler \<Rightarrow> nat" where
  "poll_triggers s = length (filter (\<lambda>t. snd t = PollTimer) (timers s))"

text \<open>A sequence of events in which \<open>getServices\<close> is never called while a processing
  window is open.\<close>

fun started_outside_window :: "scheduler \<Rightarrow> loop_event list \<Rightarrow> bool" where
  "started_outside_window s [] = True"
| "started_outside_window s (e # es) =
     ((e \<noteq> GetServices \<or> windows s = 0) \<and> started_outside_window (step s e) es)"

section \<open>Vocabulary of the specification\<close>

text \<open>The token array holds a record marker for channel \<open>idx\<close>: a token \<open>SHT\<close>
  immediately followed by the token \<open>idx\<close>.\<close>

fun has_marker :: "string \<Rightarrow> string list \<Rightarrow> bool" where
  "has_marker idx (a # b # rest) = ((a = ''SHT'' \<and> b = idx) \<or> has_marker idx (b # rest))"
| "has_marker idx _ = False"

section \<open>Invariants of the scheduler\<close>

text \<open>Handles are fresh and distinct, and a pending poll trigger is the one held in
  \<open>stateTimer\<close>.\<close>

definition fresh_handles :: "scheduler \<Rightarrow> bool" where
  "fresh_handles s =
     ((\<forall>t \<in> set (timers s). fst t < next_handle s) \<and> distinct (map fst (timers s))
      \<and> (\<forall>h. (h, PollTimer) \<in> set (timers s) \<longrightarrow> stateTimer s = Some h))"

text \<open>At most one timeout is pending, and if it is a poll trigger it is the one held in
  \<open>stateTimer\<close>.\<close>

definition single_timer :: "scheduler \<Rightarrow> bool" where
  "single_timer s =
     (length (timers s) \<le> 1
      \<and> (\<forall>h. (h, PollTimer) \<in> set (timers s) \<longrightarrow> stateTimer s = Some h))"

section \<open>Properties\<close>

subsection \<open>The rounding to binary64\<close>

lemma pow2_powi: "pow2 k = 2 powi k"
  by (simp add: pow2_def power_int_def field_simps)

lemma pow2_pos: "0 < pow2 k"
  by (simp add: pow2_def)

lemma pow2_add: "pow2 (j + k) = pow2 j * pow2 k"
  by (simp add: pow2_powi power_int_add)

lemma pow2_diff: "pow2 (j - k) = pow2 j / pow2 k"
  by (simp add: pow2_powi power_int_diff)

lemma pow2_Suc: "pow2 (k + 1) = 2 * pow2 k"
  by (simp add: pow2_powi power_int_add)

lemma bitlen_pow2_bounds:
  assumes "0 < x"
  shows "pow2 (bitlen x - 1) \<le> of_int x" and "of_int x < pow2 (bitlen x)"
proof -
  from assms have b: "1 \<le> bitlen x"
    using bitlen_eq_zero_iff [of x] bitlen_nonneg [of x] by linarith
  have "(2::int) ^ nat (bitlen x - 1) \<le> x" "x < 2 ^ nat (bitlen x)"
    using bitlen_bounds [OF assms] by simp_all
  then have "rat_of_int (2 ^ nat (bitlen x - 1)) \<le> of_int x"
    "rat_of_int x < of_int (2 ^ nat (bitlen x))"
    by (simp_all only: of_int_le_iff of_int_less_iff)
  then show "pow2 (bitlen x - 1) \<le> of_int x" and "of_int x < pow2 (bitlen x)"
    using b by (simp_all add: pow2_def)
qed

lemma ilog2_bounds:
  assumes "q \<noteq> 0"
  shows "pow2 (ilog2 q) \<le> \<bar>q\<bar> \<and> \<bar>q\<bar> < pow2 (ilog2 q + 1)"
proof -
  obtain p d where pd: "quotient_of \<bar>q\<bar> = (p, d)"
    by (cases "quotient_of \<bar>q\<bar>")
  have d: "0 < d"
    using pd by (rule quotient_of_denom_pos)
  have q: "\<bar>q\<bar> = of_int p / of_int d"
    using pd by (rule quotient_of_div)
  have p: "0 < p"
  proof -
    have "0 < \<bar>q\<bar>" using assms by simp
    then have "0 < rat_of_int p / rat_of_int d" by (simp only: q)
    with d show ?thesis by (simp add: zero_less_divide_iff)
  qed
  define k where "k = bitlen p - bitlen d"
  have lo: "pow2 (k - 1) \<le> \<bar>q\<bar>"
  proof -
    have "pow2 (bitlen p - 1) \<le> of_int p" "rat_of_int d \<le> pow2 (bitlen d)"
      using bitlen_pow2_bounds [OF p] bitlen_pow2_bounds [OF d] by simp_all
    then have "pow2 (bitlen p - 1) / pow2 (bitlen d) \<le> of_int p / of_int d"
      using d p by (intro frac_le) (simp_all add: pow2_pos less_imp_le)
    moreover have "pow2 (bitlen p - 1) / pow2 (bitlen d) = pow2 (k - 1)"
      by (simp add: k_def pow2_diff [symmetric] algebra_simps)
    ultimately show ?thesis by (simp add: q)
  qed
  have hi: "\<bar>q\<bar> < pow2 (k + 1)"
  proof -
    have "of_int p < pow2 (bitlen p)" "pow2 (bitlen d - 1) \<le> rat_of_int d"
      using bitlen_pow2_bounds [OF p] bitlen_pow2_bounds [OF d] by simp_all
    then have "of_int p / of_int d < pow2 (bitlen p) / pow2 (bitlen d - 1)"
      using p by (intro frac_less) (simp_all add: pow2_pos)
    moreover have "pow2 (bitlen p) / pow2 (bitlen d - 1) = pow2 (k + 1)"
      by (simp add: k_def pow2_diff [symmetric] algebra_simps)
    ultimately show ?thesis by (simp add: q)
  qed
  have i: "ilog2 q = (if pow2 k \<le> \<bar>q\<bar> then k else k - 1)"
    by (simp add: ilog2_def pd k_def Let_def)
  show ?thesis
  proof (cases "pow2 k \<le> \<bar>q\<bar>")
    case True
    with i hi show ?thesis by simp
  next
    case False
    with i lo show ?thesis by simp
  qed
qed


lemma round_half_even_error: "\<bar>of_int (round_half_even m) - m\<bar> \<le> 1 / 2"
proof -
  define n where "n = \<lfloor>m\<rfloor>"
  define r where "r = m - of_int n"
  have r: "0 \<le> r" "r < 1"
    unfolding r_def n_def by linarith+
  have m: "m = of_int n + r"
    by (simp add: r_def)
  have "round_half_even m =
          (if r < 1 / 2 then n else if 1 / 2 < r then n + 1 else if even n then n else n + 1)"
    by (simp add: round_half_even_def Let_def n_def r_def)
  then show ?thesis
    unfolding m using r by (auto simp: abs_if)
qed

text \<open>The overflow test of \<open>rnd\<close> is the comparison of the rounded magnitude with \<open>2^1024\<close>.\<close>

lemma overflow_test:
  assumes "0 < n"
  shows "(1025 \<le> k + bitlen n) = (pow2 1024 \<le> of_int n * pow2 k)"
proof -
  have "(pow2 1024 \<le> of_int n * pow2 k) = (pow2 1024 / pow2 k \<le> of_int n)"
    using pow2_pos [of k] by (simp add: field_simps)
  also have "\<dots> = (pow2 (1024 - k) \<le> of_int n)"
    by (simp add: pow2_diff)
  also have "\<dots> = (1025 \<le> k + bitlen n)"
  proof (cases "1024 - k \<le> 0")
    case True
    have "pow2 (1024 - k) \<le> 1"
      using True by (auto simp: pow2_def field_simps intro: one_le_power)
    moreover have "1 \<le> rat_of_int n" using assms by simp
    moreover have "1 \<le> bitlen n"
      using assms bitlen_eq_zero_iff [of n] bitlen_nonneg [of n] by linarith
    ultimately show ?thesis using True by simp
  next
    case False
    then have "pow2 (1024 - k) = rat_of_int (2 ^ nat (1024 - k))"
      by (simp add: pow2_def)
    then have "(pow2 (1024 - k) \<le> of_int n) = (2 ^ nat (1024 - k) \<le> n)"
      by (simp only: of_int_le_iff)
    also have "\<dots> = (\<not> bitlen n \<le> 1024 - k)"
      using False by (simp add: bitlen_le_iff_power not_less)
    finally show ?thesis by auto
  qed
  finally show ?thesis by simp
qed

text \<open>A finite result of \<open>rnd\<close> is within half a unit in the last place of the exact
  value.\<close>

lemma rnd_error:
  assumes "rnd q = Fin v"
  shows "\<bar>v - q\<bar> \<le> pow2 (max (ilog2 q - 52) (- 1074)) / 2"
proof (cases "q = 0")
  case True
  with assms show ?thesis
    using pow2_pos [of "max (ilog2 q - 52) (- 1074)"] by (simp add: rnd_def)
next
  case False
  define u where "u = pow2 (max (ilog2 q - 52) (- 1074))"
  define n where "n = round_half_even (\<bar>q\<bar> / u)"
  have u: "0 < u" by (simp add: u_def pow2_pos)
  from assms False have v: "v = (if 0 < q then of_int n * u else - (of_int n * u))"
    by (auto simp: rnd_def Let_def u_def n_def split: if_splits)
  have "\<bar>of_int n - \<bar>q\<bar> / u\<bar> \<le> 1 / 2"
    unfolding n_def by (rule round_half_even_error)
  then have "\<bar>of_int n - \<bar>q\<bar> / u\<bar> * u \<le> 1 / 2 * u"
    using u by (intro mult_right_mono) simp_all
  moreover have "\<bar>of_int n - \<bar>q\<bar> / u\<bar> * u = \<bar>of_int n * u - \<bar>q\<bar>\<bar>"
  proof -
    have "\<bar>of_int n - \<bar>q\<bar> / u\<bar> * u = \<bar>(of_int n - \<bar>q\<bar> / u) * u\<bar>"
      using u by (simp add: abs_mult)
    also have "(of_int n - \<bar>q\<bar> / u) * u = of_int n * u - \<bar>q\<bar>"
      using u by (simp add: left_diff_distrib)
    finally show ?thesis .
  qed
  ultimately have "\<bar>of_int n * u - \<bar>q\<bar>\<bar> \<le> u / 2"
    by simp
  then show ?thesis
    unfolding u_def [symmetric] v using False by (auto simp: abs_if split: if_splits)
qed

text \<open>Some values: the double nearest to 0.1, and ties going to the even neighbour.\<close>

lemma rnd_known_values:
  "rnd (1 / 10) = Fin (3602879701896397 / 2 ^ 55)"
  "rnd (2 ^ 53 + 1) = Fin (2 ^ 53)"
  "rnd (2 ^ 53 + 3) = Fin (2 ^ 53 + 4)"
  by code_simp+

subsection \<open>The scan leaves the alert flag and the device flag alone\<close>

lemma read_detected_frame:
  "read_detected sensorData i thisSensor st = Inr st' \<Longrightarrow>
     AlertState st' = AlertState st \<and> deviceState st' = deviceState st"
  by (auto simp: read_detected_def Let_def split: sum.splits if_splits)

lemma mark_fault_frame:
  "AlertState (mark_fault thisSensor st) = AlertState st \<and>
   deviceState (mark_fault thisSensor st) = deviceState st"
  by (simp add: mark_fault_def)

lemma loop_body_frame:
  "loop_body sensorData (i, thisSensor, st) = Inr (i', thisSensor', st') \<Longrightarrow>
     AlertState st' = AlertState st \<and> deviceState st' = deviceState st"
  by (auto simp: loop_body_def Let_def mark_fault_frame
           split: if_splits sum.splits dest: read_detected_frame)

lemma scan_loop_frame:
  "scan_loop sensorData (i, thisSensor, st) = (r, st') \<Longrightarrow>
     AlertState st' = AlertState st \<and> deviceState st' = deviceState st"
proof (induction sensorData "(i, thisSensor, st)" arbitrary: i thisSensor st
       rule: scan_loop.induct)
  case (1 sensorData i thisSensor st)
  show ?case
  proof (cases "loop_body sensorData (i, thisSensor, st)")
    case (Inl e)
    with "1.prems" show ?thesis by simp
  next
    case (Inr v)
    obtain i' thisSensor' st1 where v: "v = (i', thisSensor', st1)"
      by (cases v) auto
    have fr: "AlertState st1 = AlertState st \<and> deviceState st1 = deviceState st"
      using Inr v loop_body_frame by blast
    show ?thesis
    proof (cases "Suc i' < length sensorData")
      case True
      with "1.prems" Inr v have "scan_loop sensorData (Suc i', thisSensor', st1) = (r, st')"
        by simp
      with "1.hyps" [OF Inr v [symmetric] refl True] fr show ?thesis by simp
    next
      case False
      with "1.prems" Inr v fr show ?thesis by simp
    qed
  qed
qed


subsection \<open>The alert rule\<close>

lemma jlt_irrefl: "\<not> jlt x x"
  by (cases x) simp_all

lemma update_alert_ignores_health:
  "AlertState (update_alert alertThreshold (st\<lparr>sensor1State := f1, sensor2State := f2\<rparr>)) =
   AlertState (update_alert alertThreshold st)"
  by (simp add: update_alert_def)

lemma update_alert_humid:
  "sensor1Humid (update_alert alertThreshold st) = sensor1Humid st \<and>
   sensor2Humid (update_alert alertThreshold st) = sensor2Humid st"
  by (simp add: update_alert_def)

text \<open>
  Claim C1. In a poll cycle whose timer callback runs to its end, the alert rule is
  applied to the two humidity values the scan has published: from \<open>LEAK_NOT_DETECTED\<close>
  the flag becomes \<open>LEAK_DETECTED\<close> exactly when one of them is strictly greater than the
  threshold, from \<open>LEAK_DETECTED\<close> it becomes \<open>LEAK_NOT_DETECTED\<close> exactly when both are
  strictly less, and otherwise it keeps its value. A flag that changed had a humidity
  different from the threshold; a humidity equal to the threshold keeps a raised alert
  raised. The health flags of the channels play no part in the rule.
\<close>

theorem alert_state_machine:
  assumes "pollSensorState alertThreshold events st = (None, st')"
  shows "(AlertState st = LEAK_NOT_DETECTED \<longrightarrow>
            (AlertState st' = LEAK_DETECTED) =
            (jgt (sensor1Humid st') alertThreshold \<or> jgt (sensor2Humid st') alertThreshold))
       \<and> (AlertState st = LEAK_DETECTED \<longrightarrow>
            (AlertState st' = LEAK_NOT_DETECTED) =
            (jlt (sensor1Humid st') alertThreshold \<and> jlt (sensor2Humid st') alertThreshold))
       \<and> (AlertState st' \<noteq> AlertState st \<longrightarrow>
            sensor1Humid st' \<noteq> alertThreshold \<or> sensor2Humid st' \<noteq> alertThreshold)
       \<and> (sensor1Humid st' = alertThreshold \<or> sensor2Humid st' = alertThreshold \<longrightarrow>
            AlertState st = LEAK_DETECTED \<longrightarrow> AlertState st' = LEAK_DETECTED)
       \<and> (\<forall>f1 f2. AlertState (update_alert alertThreshold
                                  (st'\<lparr>sensor1State := f1, sensor2State := f2\<rparr>)) =
                    AlertState (update_alert alertThreshold st'))"
proof -
  let ?sd = "sensorData_of (fst (foldl on_event ([], False) events))"
  obtain r s1 where sc: "scan_loop ?sd (0, 0, st) = (r, s1)"
    by (cases "scan_loop ?sd (0, 0, st)") auto
  from assms sc have r: "r = None" and st': "st' = update_alert alertThreshold s1"
    by (auto simp: pollSensorState_def process_data_def split: option.splits)
  have a: "AlertState s1 = AlertState st"
    using scan_loop_frame [OF sc] by simp
  have h: "sensor1Humid st' = sensor1Humid s1" "sensor2Humid st' = sensor2Humid s1"
    using st' update_alert_humid by simp_all
  have up: "AlertState st = LEAK_NOT_DETECTED \<longrightarrow>
            (AlertState st' = LEAK_DETECTED) =
            (jgt (sensor1Humid st') alertThreshold \<or> jgt (sensor2Humid st') alertThreshold)"
    unfolding h using a st' by (simp add: update_alert_def)
  have down: "AlertState st = LEAK_DETECTED \<longrightarrow>
            (AlertState st' = LEAK_NOT_DETECTED) =
            (jlt (sensor1Humid st') alertThreshold \<and> jlt (sensor2Humid st') alertThreshold)"
    unfolding h using a st' by (simp add: update_alert_def)
  have eq: "AlertState st' \<noteq> AlertState st \<longrightarrow>
            sensor1Humid st' \<noteq> alertThreshold \<or> sensor2Humid st' \<noteq> alertThreshold"
    unfolding h using a st' by (auto simp: update_alert_def jgt_def jlt_irrefl split: if_splits)
  have blk: "sensor1Humid st' = alertThreshold \<or> sensor2Humid st' = alertThreshold \<longrightarrow>
            AlertState st = LEAK_DETECTED \<longrightarrow> AlertState st' = LEAK_DETECTED"
    unfolding h using a st' by (auto simp: update_alert_def jlt_irrefl split: if_splits)
  show ?thesis
    using up down eq blk update_alert_ignores_health by blast
qed

theorem alert_state_machine_witness:
  "pollSensorState (Fin 90)
     [HttpResponse 200, HttpData ''SHT,1,A,Detected,20,20,20,91%,91%,91%'', HttpEnd]
     initial_state
   = (None, initial_state\<lparr>AlertState := LEAK_DETECTED, sensor1Temp := Fin 20,
                            sensor1Humid := Fin 91\<rparr>)
   \<and> AlertState initial_state = LEAK_NOT_DETECTED
   \<and> jgt (Fin 91) (Fin 90)
   \<and> pollSensorState (Fin 90)
     [HttpResponse 200, HttpData ''SHT,1,A,Detected,20,20,20,90%,90%,90%'', HttpEnd]
     (initial_state\<lparr>AlertState := LEAK_DETECTED, sensor1State := GENERAL_FAULT\<rparr>)
   = (None, initial_state\<lparr>AlertState := LEAK_DETECTED, sensor1Temp := Fin 20,
                            sensor1Humid := Fin 90\<rparr>)
   \<and> \<not> jlt (Fin 90) (Fin 90)"
proof -
  have r1: "pollSensorState (Fin 90)
     [HttpResponse 200, HttpData ''SHT,1,A,Detected,20,20,20,91%,91%,91%'', HttpEnd]
     initial_state
   = (None, initial_state\<lparr>AlertState := LEAK_DETECTED, sensor1Temp := Fin 20,
                            sensor1Humid := Fin 91\<rparr>)"
    by code_simp
  have r2: "pollSensorState (Fin 90)
     [HttpResponse 200, HttpData ''SHT,1,A,Detected,20,20,20,90%,90%,90%'', HttpEnd]
     (initial_state\<lparr>AlertState := LEAK_DETECTED, sensor1State := GENERAL_FAULT\<rparr>)
   = (None, initial_state\<lparr>AlertState := LEAK_DETECTED, sensor1Temp := Fin 20,
                            sensor1Humid := Fin 90\<rparr>)"
    by code_simp
  show ?thesis
    using alert_state_machine [OF r1] alert_state_machine [OF r2] r1 r2
    by (simp add: initial_state_def jgt_def)
qed

subsection \<open>One record of the payload\<close>

lemma jadd_commute: "jadd a b = jadd b a"
  by (cases a; cases b) (simp_all add: add.commute)

lemma jadd_NaN [simp]: "jadd x NaN = NaN"
  by (cases x) simp_all

lemma tok_Some_length: "tok sensorData i = Some s \<Longrightarrow> i < length sensorData"
  by (simp add: tok_def split: if_splits)

lemma tok_update:
  "tok (sensorData[j := s]) i =
     (if i = j \<and> j < length sensorData then Some s else tok sensorData i)"
  by (simp add: tok_def)

text \<open>The body of the loop at an \<open>SHT\<close> token followed by a channel index.\<close>

lemma loop_body_marker:
  assumes "tok sensorData i = Some ''SHT''"
    and "tok sensorData (i + 1) = Some idx" and "idx = ''1'' \<or> idx = ''2''"
  shows "loop_body sensorData (i, thisSensor, st) =
           (if tok sensorData (i + 3) = Some ''Detected''
            then (case read_detected sensorData (i + 3) (if idx = ''1'' then 1 else 2) st of
                    Inl e \<Rightarrow> Inl e
                  | Inr st' \<Rightarrow> Inr (i + 9, (if idx = ''1'' then 1 else 2), st'))
            else Inr (i + 3, (if idx = ''1'' then 1 else 2),
                      mark_fault (if idx = ''1'' then 1 else 2) st))"
proof -
  have e: "i + 3 = Suc (Suc (Suc i))" "i + 9 = Suc (Suc (Suc i)) + 6"
    by simp_all
  have idx: "tok sensorData (Suc i) = Some idx"
    using assms(2) by simp
  from assms(3) show ?thesis
  proof
    assume "idx = ''1''"
    then show ?thesis
      using assms(1) idx by (simp add: loop_body_def e split: sum.split)
  next
    assume "idx = ''2''"
    then show ?thesis
      using assms(1) idx by (simp add: loop_body_def e split: sum.split)
  qed
qed

text \<open>The Detected branch when the six sample tokens are present.\<close>

lemma read_detected_present:
  assumes "tok sensorData (j + 1) = Some t1" and "tok sensorData (j + 2) = Some t2"
    and "tok sensorData (j + 3) = Some t3"
    and "tok sensorData (j + 4) = Some h1" and "tok sensorData (j + 5) = Some h2"
    and "tok sensorData (j + 6) = Some h3"
  shows "read_detected sensorData j k st =
          (if k = 1
           then Inr (st\<lparr>sensor1State := NO_FAULT,
                       sensor1Temp := jdiv3 (jadd (jadd (toNumber t1) (toNumber t2)) (toNumber t3)),
                       sensor1Humid := jdiv3 (jadd (jadd (toNumber (butlast h1))
                                                         (toNumber (butlast h2)))
                                                   (toNumber (butlast h3)))\<rparr>)
           else Inr (st\<lparr>sensor2State := NO_FAULT,
                       sensor2Temp := jdiv3 (jadd (jadd (toNumber t1) (toNumber t2)) (toNumber t3)),
                       sensor2Humid := jdiv3 (jadd (jadd (toNumber (butlast h1))
                                                         (toNumber (butlast h2)))
                                                   (toNumber (butlast h3)))\<rparr>))"
  unfolding read_detected_def assms temp_sample_def humid_sample_def by simp

text \<open>A record with status \<open>Detected\<close> and its six sample tokens present, met by the
  scan at its \<open>SHT\<close> token.\<close>

lemma loop_body_detected:
  assumes "tok sensorData i = Some ''SHT''"
    and "tok sensorData (i + 1) = Some idx" and "idx = ''1'' \<or> idx = ''2''"
    and "tok sensorData (i + 3) = Some ''Detected''"
    and "tok sensorData (i + 4) = Some t1" and "tok sensorData (i + 5) = Some t2"
    and "tok sensorData (i + 6) = Some t3"
    and "tok sensorData (i + 7) = Some h1" and "tok sensorData (i + 8) = Some h2"
    and "tok sensorData (i + 9) = Some h3"
  shows "loop_body sensorData (i, thisSensor, st) =
           Inr (i + 9, (if idx = ''1'' then 1 else 2),
                (if idx = ''1''
                 then st\<lparr>sensor1State := NO_FAULT,
                         sensor1Temp := jdiv3 (jadd (jadd (toNumber t1) (toNumber t2)) (toNumber t3)),
                         sensor1Humid := jdiv3 (jadd (jadd (toNumber (butlast h1))
                                                           (toNumber (butlast h2)))
                                                     (toNumber (butlast h3)))\<rparr>
                 else st\<lparr>sensor2State := NO_FAULT,
                         sensor2Temp := jdiv3 (jadd (jadd (toNumber t1) (toNumber t2)) (toNumber t3)),
                         sensor2Humid := jdiv3 (jadd (jadd (toNumber (butlast h1))
                                                           (toNumber (butlast h2)))
                                                     (toNumber (butlast h3)))\<rparr>))"
proof -
  have e: "i + 3 + 1 = i + 4" "i + 3 + 2 = i + 5" "i + 3 + 3 = i + 6"
    "i + 3 + 4 = i + 7" "i + 3 + 5 = i + 8" "i + 3 + 6 = i + 9"
    by simp_all
  have p: "tok sensorData (i + 3 + 1) = Some t1" "tok sensorData (i + 3 + 2) = Some t2"
    "tok sensorData (i + 3 + 3) = Some t3" "tok sensorData (i + 3 + 4) = Some h1"
    "tok sensorData (i + 3 + 5) = Some h2" "tok sensorData (i + 3 + 6) = Some h3"
    unfolding e by (fact assms)+
  show ?thesis
    unfolding loop_body_marker [OF assms(1-3)] read_detected_present [OF p]
    using assms(3,4) by auto
qed

text \<open>
  Claim C6. When the scan meets a record whose channel index is \<open>1\<close> or \<open>2\<close> and whose
  status token is anything but \<open>Detected\<close> (a missing status token included), the step
  sets the health of that channel to \<open>GENERAL_FAULT\<close> and changes nothing else: the
  temperature and the humidity published for the channel stay as they were.
\<close>

theorem not_detected_marks_fault:
  assumes "tok sensorData i = Some ''SHT''"
    and "tok sensorData (i + 1) = Some idx" and "idx = ''1'' \<or> idx = ''2''"
    and "tok sensorData (i + 3) \<noteq> Some ''Detected''"
  shows "loop_body sensorData (i, thisSensor, st) =
           Inr (i + 3, (if idx = ''1'' then 1 else 2),
                (if idx = ''1'' then st\<lparr>sensor1State := GENERAL_FAULT\<rparr>
                 else st\<lparr>sensor2State := GENERAL_FAULT\<rparr>))"
  unfolding loop_body_marker [OF assms(1-3)] using assms(3,4)
  by (auto simp: mark_fault_def)


theorem not_detected_marks_fault_witness:
  "tok [''SHT'', ''2'', ''B'', ''Not Detected'', ''0'', ''0'', ''0'', ''0%'', ''0%'', ''0%''] 0
     = Some ''SHT''
   \<and> tok [''SHT'', ''2'', ''B'', ''Not Detected'', ''0'', ''0'', ''0'', ''0%'', ''0%'', ''0%''] (0 + 1)
     = Some ''2''
   \<and> tok [''SHT'', ''2'', ''B'', ''Not Detected'', ''0'', ''0'', ''0'', ''0%'', ''0%'', ''0%''] (0 + 3)
     \<noteq> Some ''Detected''
   \<and> loop_body
        [''SHT'', ''2'', ''B'', ''Not Detected'', ''0'', ''0'', ''0'', ''0%'', ''0%'', ''0%'']
        (0, 0, initial_state\<lparr>sensor2Temp := Fin 21, sensor2Humid := Fin 55\<rparr>)
     = Inr (3, 2, initial_state\<lparr>sensor2State := GENERAL_FAULT, sensor2Temp := Fin 21,
                                    sensor2Humid := Fin 55\<rparr>)"
proof -
  let ?sd = "[''SHT'', ''2'', ''B'', ''Not Detected'', ''0'', ''0'', ''0'', ''0%'', ''0%'', ''0%'']"
  have a: "tok ?sd 0 = Some ''SHT''" and b: "tok ?sd (0 + 1) = Some ''2''"
    and c: "''2'' = ''1'' \<or> ''2'' = ''2''" and d: "tok ?sd (0 + 3) \<noteq> Some ''Detected''"
    by (simp_all add: tok_def)
  show ?thesis
    using not_detected_marks_fault [OF a b c d, of 0
            "initial_state\<lparr>sensor2Temp := Fin 21, sensor2Humid := Fin 55\<rparr>"] a b d
    by (simp add: initial_state_def)
qed

lemma jadd3_NaN: "a = NaN \<or> b = NaN \<or> c = NaN \<Longrightarrow> jdiv3 (jadd (jadd a b) c) = NaN"
  by auto

text \<open>
  Claim C5, as amended. For a \<open>Detected\<close> record whose six sample tokens are present the
  step does not throw; it sets the health of the channel to \<open>NO_FAULT\<close>, and a temperature
  (humidity) token that fails numeric coercion makes the published temperature
  (humidity) NaN. There is no check of the aggregate, so the channel is not marked
  faulty.
\<close>

theorem non_numeric_sample_publishes_NaN:
  assumes "tok sensorData i = Some ''SHT''"
    and "tok sensorData (i + 1) = Some idx" and "idx = ''1'' \<or> idx = ''2''"
    and "tok sensorData (i + 3) = Some ''Detected''"
    and "tok sensorData (i + 4) = Some t1" and "tok sensorData (i + 5) = Some t2"
    and "tok sensorData (i + 6) = Some t3"
    and "tok sensorData (i + 7) = Some h1" and "tok sensorData (i + 8) = Some h2"
    and "tok sensorData (i + 9) = Some h3"
  shows "\<exists>st'. loop_body sensorData (i, thisSensor, st) =
                 Inr (i + 9, (if idx = ''1'' then 1 else 2), st')
             \<and> (if idx = ''1'' then sensor1State st' else sensor2State st') = NO_FAULT
             \<and> (toNumber t1 = NaN \<or> toNumber t2 = NaN \<or> toNumber t3 = NaN \<longrightarrow>
                  (if idx = ''1'' then sensor1Temp st' else sensor2Temp st') = NaN)
             \<and> (toNumber (butlast h1) = NaN \<or> toNumber (butlast h2) = NaN
                  \<or> toNumber (butlast h3) = NaN \<longrightarrow>
                  (if idx = ''1'' then sensor1Humid st' else sensor2Humid st') = NaN)"
  unfolding loop_body_detected [OF assms] using jadd3_NaN by auto

theorem non_numeric_sample_publishes_NaN_witness:
  "\<exists>st'. loop_body
            [''SHT'', ''1'', ''A'', ''Detected'', ''abc'', ''20'', ''20'', ''50%'', ''50%'', ''50%'']
            (0, 0, initial_state\<lparr>sensor1State := GENERAL_FAULT\<rparr>) = Inr (9, 1, st')
         \<and> sensor1State st' = NO_FAULT \<and> sensor1Temp st' = NaN"
proof -
  let ?sd = "[''SHT'', ''1'', ''A'', ''Detected'', ''abc'', ''20'', ''20'', ''50%'', ''50%'', ''50%'']"
  have l: "tok ?sd 0 = Some ''SHT''" "tok ?sd (0 + 1) = Some ''1''" "''1'' = ''1'' \<or> ''1'' = ''2''"
    "tok ?sd (0 + 3) = Some ''Detected''"
    "tok ?sd (0 + 4) = Some ''abc''" "tok ?sd (0 + 5) = Some ''20''" "tok ?sd (0 + 6) = Some ''20''"
    "tok ?sd (0 + 7) = Some ''50%''" "tok ?sd (0 + 8) = Some ''50%''" "tok ?sd (0 + 9) = Some ''50%''"
    by (simp_all add: tok_def)
  have n: "toNumber ''abc'' = NaN"
    by code_simp
  show ?thesis
    using non_numeric_sample_publishes_NaN [OF l, of 0 "initial_state\<lparr>sensor1State := GENERAL_FAULT\<rparr>"] n
    by auto
qed

text \<open>
  The claim as the specification has it fails on a whole cycle: with \<open>abc\<close> as a
  temperature, channel 1 goes from \<open>GENERAL_FAULT\<close> to \<open>NO_FAULT\<close> and NaN is published.
\<close>

theorem non_numeric_sample_counterexample:
  "process_data (Fin 90) ''SHT,1,A,Detected,abc,20,20,50%,50%,50%''
     (initial_state\<lparr>sensor1State := GENERAL_FAULT\<rparr>)
   = (None, initial_state\<lparr>sensor1State := NO_FAULT, sensor1Temp := NaN, sensor1Humid := Fin 50\<rparr>)"
  by code_simp


text \<open>
  Claim C2, as amended. For a \<open>Detected\<close> record with its six sample tokens present,
  the humidity tokens ending in a percent sign, the step sets the health of the channel
  to \<open>NO_FAULT\<close> and publishes, for the temperature and for the humidity with the percent
  sign removed, the binary64 value of \<open>(s1 + s2 + s3) / 3\<close> evaluated from left to right.
  Exchanging the first two samples does not change the step. When both additions are
  exact the published value is the arithmetic mean rounded once to binary64.
\<close>

theorem detected_publishes_rounded_mean:
  assumes "tok sensorData i = Some ''SHT''"
    and "tok sensorData (i + 1) = Some idx" and "idx = ''1'' \<or> idx = ''2''"
    and "tok sensorData (i + 3) = Some ''Detected''"
    and "tok sensorData (i + 4) = Some t1" and "tok sensorData (i + 5) = Some t2"
    and "tok sensorData (i + 6) = Some t3"
    and "tok sensorData (i + 7) = Some (x1 @ ''%'')"
    and "tok sensorData (i + 8) = Some (x2 @ ''%'')"
    and "tok sensorData (i + 9) = Some (x3 @ ''%'')"
  shows "loop_body sensorData (i, thisSensor, st) =
           Inr (i + 9, (if idx = ''1'' then 1 else 2),
                (if idx = ''1''
                 then st\<lparr>sensor1State := NO_FAULT,
                         sensor1Temp := jdiv3 (jadd (jadd (toNumber t1) (toNumber t2)) (toNumber t3)),
                         sensor1Humid := jdiv3 (jadd (jadd (toNumber x1) (toNumber x2)) (toNumber x3))\<rparr>
                 else st\<lparr>sensor2State := NO_FAULT,
                         sensor2Temp := jdiv3 (jadd (jadd (toNumber t1) (toNumber t2)) (toNumber t3)),
                         sensor2Humid := jdiv3 (jadd (jadd (toNumber x1) (toNumber x2)) (toNumber x3))\<rparr>))
       \<and> loop_body (sensorData[i + 4 := t2, i + 5 := t1, i + 7 := x2 @ ''%'', i + 8 := x1 @ ''%''])
            (i, thisSensor, st)
         = loop_body sensorData (i, thisSensor, st)
       \<and> (\<forall>a b c. jadd (Fin a) (Fin b) = Fin (a + b) \<and> jadd (Fin (a + b)) (Fin c) = Fin (a + b + c)
             \<longrightarrow> jdiv3 (jadd (jadd (Fin a) (Fin b)) (Fin c)) = rnd ((a + b + c) / 3))"
proof -
  let ?sd' = "sensorData[i + 4 := t2, i + 5 := t1, i + 7 := x2 @ ''%'', i + 8 := x1 @ ''%'']"
  have len: "i + 4 < length sensorData" "i + 5 < length sensorData"
    "i + 7 < length sensorData" "i + 8 < length sensorData"
    using assms(5,6,8,9) by (auto dest: tok_Some_length)
  have first: "loop_body sensorData (i, thisSensor, st) =
           Inr (i + 9, (if idx = ''1'' then 1 else 2),
                (if idx = ''1''
                 then st\<lparr>sensor1State := NO_FAULT,
                         sensor1Temp := jdiv3 (jadd (jadd (toNumber t1) (toNumber t2)) (toNumber t3)),
                         sensor1Humid := jdiv3 (jadd (jadd (toNumber x1) (toNumber x2)) (toNumber x3))\<rparr>
                 else st\<lparr>sensor2State := NO_FAULT,
                         sensor2Temp := jdiv3 (jadd (jadd (toNumber t1) (toNumber t2)) (toNumber t3)),
                         sensor2Humid := jdiv3 (jadd (jadd (toNumber x1) (toNumber x2)) (toNumber x3))\<rparr>))"
    using loop_body_detected [OF assms, of thisSensor st] by simp
  have l': "tok ?sd' i = Some ''SHT''" "tok ?sd' (i + 1) = Some idx" "idx = ''1'' \<or> idx = ''2''"
    "tok ?sd' (i + 3) = Some ''Detected''"
    "tok ?sd' (i + 4) = Some t2" "tok ?sd' (i + 5) = Some t1" "tok ?sd' (i + 6) = Some t3"
    "tok ?sd' (i + 7) = Some (x2 @ ''%'')" "tok ?sd' (i + 8) = Some (x1 @ ''%'')"
    "tok ?sd' (i + 9) = Some (x3 @ ''%'')"
    using assms len by (simp_all add: tok_update)
  have second: "loop_body ?sd' (i, thisSensor, st) = loop_body sensorData (i, thisSensor, st)"
    unfolding first using loop_body_detected [OF l', of thisSensor st]
    by (simp add: jadd_commute [of "toNumber t2"] jadd_commute [of "toNumber x2"])
  show ?thesis
    using first second by simp
qed

text \<open>
  Order independence fails for the third sample: the temperatures 22.1, 22.2, 22.3
  give 22.2, and the same samples as 22.1, 22.3, 22.2 give 22.200000000000003.
\<close>

theorem mean_order_counterexample:
  "sensor1Temp (snd (process_data (Fin 90) ''SHT,1,A,Detected,22.1,22.2,22.3,50%,50%,50%''
                       initial_state))
     = Fin (6248744482976563 / 281474976710656)
   \<and> sensor1Temp (snd (process_data (Fin 90) ''SHT,1,A,Detected,22.1,22.3,22.2,50%,50%,50%''
                         initial_state))
     = Fin (1562186120744141 / 70368744177664)
   \<and> Fin (6248744482976563 / 281474976710656) \<noteq> Fin (1562186120744141 / 70368744177664)"
  by code_simp


theorem detected_publishes_rounded_mean_witness:
  "loop_body [''SHT'', ''1'', ''A'', ''Detected'', ''20'', ''20'', ''20'', ''91%'', ''91%'', ''91%'']
     (0, 0, initial_state)
   = Inr (9, 1, initial_state\<lparr>sensor1State := NO_FAULT, sensor1Temp := Fin 20,
                                  sensor1Humid := Fin 91\<rparr>)
   \<and> jadd (Fin 20) (Fin 20) = Fin (20 + 20) \<and> jadd (Fin (20 + 20)) (Fin 20) = Fin (20 + 20 + 20)
   \<and> jdiv3 (jadd (jadd (Fin 20) (Fin 20)) (Fin 20)) = rnd ((20 + 20 + 20) / 3)"
proof -
  let ?sd = "[''SHT'', ''1'', ''A'', ''Detected'', ''20'', ''20'', ''20'', ''91%'', ''91%'', ''91%'']"
  have l: "tok ?sd 0 = Some ''SHT''" "tok ?sd (0 + 1) = Some ''1''" "''1'' = ''1'' \<or> ''1'' = ''2''"
    "tok ?sd (0 + 3) = Some ''Detected''"
    "tok ?sd (0 + 4) = Some ''20''" "tok ?sd (0 + 5) = Some ''20''" "tok ?sd (0 + 6) = Some ''20''"
    "tok ?sd (0 + 7) = Some (''91'' @ ''%'')" "tok ?sd (0 + 8) = Some (''91'' @ ''%'')"
    "tok ?sd (0 + 9) = Some (''91'' @ ''%'')"
    by (simp_all add: tok_def)
  have n: "toNumber ''20'' = Fin 20" "toNumber ''91'' = Fin 91"
    by code_simp+
  have m: "jdiv3 (jadd (jadd (Fin 20) (Fin 20)) (Fin 20)) = Fin 20"
    "jdiv3 (jadd (jadd (Fin 91) (Fin 91)) (Fin 91)) = Fin 91"
    by code_simp+
  have x: "jadd (Fin 20) (Fin 20) = Fin (20 + 20)"
    "jadd (Fin (20 + 20)) (Fin 20) = Fin (20 + 20 + 20)"
    by code_simp+
  have e: "jdiv3 (jadd (jadd (Fin 20) (Fin 20)) (Fin 20)) = rnd ((20 + 20 + 20) / 3)"
    by code_simp
  have "loop_body ?sd (0, 0, initial_state)
        = Inr (9, 1, initial_state\<lparr>sensor1State := NO_FAULT, sensor1Temp := Fin 20,
                                       sensor1Humid := Fin 91\<rparr>)"
    using detected_publishes_rounded_mean [OF l, of 0 initial_state, THEN conjunct1]
    unfolding n m by simp
  with x e show ?thesis by simp
qed

text \<open>A \<open>Detected\<close> record cut short before its last humidity token: \<open>slice\<close> is called
  on \<open>undefined\<close>, the callback is left by a TypeError, nothing is published and
  \<open>pollState()\<close> is not reached.\<close>

lemma truncated_record_throws:
  "process_data (Fin 90) ''SHT,1,A,Detected,20,20,20,50%,50%'' initial_state
   = (Some TypeError, initial_state)"
  by code_simp

text \<open>
  Claim C10. For every humidity token of a \<open>Detected\<close> record the value coerced is the
  token without its last character, whatever that character is: the token \<open>91\<close> is coerced
  as 9 (and \<open>91%\<close> as 91), and the empty token is coerced as the empty string, which is 0
  and not an error.
\<close>

theorem humidity_last_character_dropped:
  assumes "tok sensorData i = Some ''SHT''"
    and "tok sensorData (i + 1) = Some idx" and "idx = ''1'' \<or> idx = ''2''"
    and "tok sensorData (i + 3) = Some ''Detected''"
    and "tok sensorData (i + 4) = Some t1" and "tok sensorData (i + 5) = Some t2"
    and "tok sensorData (i + 6) = Some t3"
    and "tok sensorData (i + 7) = Some h1" and "tok sensorData (i + 8) = Some h2"
    and "tok sensorData (i + 9) = Some h3"
  shows "(\<exists>st'. loop_body sensorData (i, thisSensor, st) =
                  Inr (i + 9, (if idx = ''1'' then 1 else 2), st')
              \<and> (if idx = ''1'' then sensor1Humid st' else sensor2Humid st') =
                  jdiv3 (jadd (jadd (toNumber (butlast h1)) (toNumber (butlast h2)))
                              (toNumber (butlast h3))))
       \<and> humid_sample (Some ''91'') = Inr (Fin 9)
       \<and> humid_sample (Some ''91%'') = Inr (Fin 91)
       \<and> humid_sample (Some []) = Inr (toNumber [])
       \<and> toNumber [] = Fin 0"
proof -
  have c: "humid_sample (Some ''91'') = Inr (Fin 9)" "humid_sample (Some ''91%'') = Inr (Fin 91)"
    "humid_sample (Some []) = Inr (toNumber [])" "toNumber [] = Fin 0"
    by code_simp+
  show ?thesis
    unfolding loop_body_detected [OF assms] using c by auto
qed

theorem humidity_last_character_dropped_witness:
  "loop_body [''SHT'', ''1'', ''A'', ''Detected'', ''20'', ''20'', ''20'', ''91'', ''91'', ''91'']
     (0, 0, initial_state)
   = Inr (9, 1, initial_state\<lparr>sensor1State := NO_FAULT, sensor1Temp := Fin 20,
                                  sensor1Humid := Fin 9\<rparr>)
   \<and> loop_body [''SHT'', ''1'', ''A'', ''Detected'', ''20'', ''20'', ''20'', [], [], []]
     (0, 0, initial_state)
   = Inr (9, 1, initial_state\<lparr>sensor1State := NO_FAULT, sensor1Temp := Fin 20,
                                  sensor1Humid := Fin 0\<rparr>)"
proof -
  let ?sd = "[''SHT'', ''1'', ''A'', ''Detected'', ''20'', ''20'', ''20'', ''91'', ''91'', ''91'']"
  let ?se = "[''SHT'', ''1'', ''A'', ''Detected'', ''20'', ''20'', ''20'', [], [], []]"
  have l: "tok ?sd 0 = Some ''SHT''" "tok ?sd (0 + 1) = Some ''1''" "''1'' = ''1'' \<or> ''1'' = ''2''"
    "tok ?sd (0 + 3) = Some ''Detected''"
    "tok ?sd (0 + 4) = Some ''20''" "tok ?sd (0 + 5) = Some ''20''" "tok ?sd (0 + 6) = Some ''20''"
    "tok ?sd (0 + 7) = Some ''91''" "tok ?sd (0 + 8) = Some ''91''" "tok ?sd (0 + 9) = Some ''91''"
    by (simp_all add: tok_def)
  have k: "tok ?se 0 = Some ''SHT''" "tok ?se (0 + 1) = Some ''1''" "''1'' = ''1'' \<or> ''1'' = ''2''"
    "tok ?se (0 + 3) = Some ''Detected''"
    "tok ?se (0 + 4) = Some ''20''" "tok ?se (0 + 5) = Some ''20''" "tok ?se (0 + 6) = Some ''20''"
    "tok ?se (0 + 7) = Some []" "tok ?se (0 + 8) = Some []" "tok ?se (0 + 9) = Some []"
    by (simp_all add: tok_def)
  have n: "toNumber ''9'' = Fin 9" "toNumber [] = Fin 0"
    by code_simp+
  have m: "jdiv3 (jadd (jadd (Fin 9) (Fin 9)) (Fin 9)) = Fin 9"
    "jdiv3 (jadd (jadd (Fin 0) (Fin 0)) (Fin 0)) = Fin 0"
    by code_simp+
  have r1: "loop_body ?sd (0, 0, initial_state)
            = Inr (9, 1, initial_state\<lparr>sensor1State := NO_FAULT, sensor1Temp := Fin 20,
                                           sensor1Humid := Fin 9\<rparr>)"
    by code_simp
  have r2: "loop_body ?se (0, 0, initial_state)
            = Inr (9, 1, initial_state\<lparr>sensor1State := NO_FAULT, sensor1Temp := Fin 20,
                                           sensor1Humid := Fin 0\<rparr>)"
    by code_simp
  show ?thesis
    using humidity_last_character_dropped [OF l, of 0 initial_state]
          humidity_last_character_dropped [OF k, of 0 initial_state] r1 r2 n m
    by simp
qed

text \<open>
  Claim C4, at a failing input. \<open>thisSensor\<close> keeps its value from the record before, so
  the marker \<open>SHT,3\<close> after a good record of channel 1 is handled as a record of channel 1
  whose status token is \<open>3\<close>: channel 1 is marked \<open>GENERAL_FAULT\<close>. And since the scan
  advances by two tokens where it finds no marker, the good record after \<open>SHT,3,B\<close>, which
  starts at an odd position, is never seen.
\<close>

theorem stale_thisSensor_marks_channel_1:
  "process_data (Fin 90)
     ''SHT,1,A,Detected,20,20,20,50%,50%,50%\<newline>SHT,3,B,Detected,1,1,1,1%,1%,1%''
     initial_state
   = (None, initial_state\<lparr>sensor1State := GENERAL_FAULT, sensor1Temp := Fin 20,
                            sensor1Humid := Fin 50\<rparr>)
   \<and> process_data (Fin 90) ''SHT,3,B\<newline>SHT,1,A,Detected,20,20,20,50%,50%,50%'' initial_state
   = (None, initial_state)"
  by code_simp

subsection \<open>A channel without a record\<close>

lemma has_marker_tok:
  "\<not> has_marker idx sensorData \<Longrightarrow> tok sensorData j = Some ''SHT'' \<Longrightarrow>
     tok sensorData (Suc j) \<noteq> Some idx"
proof (induction idx sensorData arbitrary: j rule: has_marker.induct)
  case (1 idx a b rest)
  show ?case
  proof (cases j)
    case 0
    with "1.prems" show ?thesis by (auto simp: tok_def)
  next
    case (Suc k)
    with "1.prems" have "tok (b # rest) k = Some ''SHT''"
      by (simp add: tok_def split: if_splits)
    moreover from "1.prems" have "\<not> has_marker idx (b # rest)" by simp
    ultimately have "tok (b # rest) (Suc k) \<noteq> Some idx"
      by (rule "1.IH" [rotated])
    with Suc show ?thesis by (simp add: tok_def split: if_splits)
  qed
qed (auto simp: tok_def split: if_splits)

text \<open>The fields of one channel.\<close>

lemma read_detected_other_channel:
  "read_detected sensorData j k st = Inr st' \<Longrightarrow>
     (k = 1 \<longrightarrow> sensor2State st' = sensor2State st \<and> sensor2Temp st' = sensor2Temp st
                 \<and> sensor2Humid st' = sensor2Humid st)
   \<and> (k \<noteq> 1 \<longrightarrow> sensor1State st' = sensor1State st \<and> sensor1Temp st' = sensor1Temp st
                 \<and> sensor1Humid st' = sensor1Humid st)"
  by (auto simp: read_detected_def Let_def split: sum.splits if_splits)

lemma mark_fault_other_channel:
  "(k = 1 \<longrightarrow> sensor2State (mark_fault k st) = sensor2State st)
   \<and> (k \<noteq> 1 \<longrightarrow> sensor1State (mark_fault k st) = sensor1State st)
   \<and> sensor1Temp (mark_fault k st) = sensor1Temp st
   \<and> sensor1Humid (mark_fault k st) = sensor1Humid st
   \<and> sensor2Temp (mark_fault k st) = sensor2Temp st
   \<and> sensor2Humid (mark_fault k st) = sensor2Humid st"
  by (simp add: mark_fault_def)

lemma loop_body_no_marker_2:
  assumes "\<not> has_marker ''2'' sensorData"
    and "loop_body sensorData (i, thisSensor, st) = Inr (i', thisSensor', st')"
    and "thisSensor = 0 \<or> thisSensor = 1"
  shows "(thisSensor' = 0 \<or> thisSensor' = 1)
       \<and> sensor2State st' = sensor2State st \<and> sensor2Temp st' = sensor2Temp st
       \<and> sensor2Humid st' = sensor2Humid st"
proof (cases "tok sensorData i = Some ''SHT''")
  case True
  then have no2: "tok sensorData (Suc i) \<noteq> Some ''2''"
    using assms(1) has_marker_tok by blast
  show ?thesis
    using assms(2,3) True no2 mark_fault_other_channel [of 1 st]
    by (auto simp: loop_body_def Let_def split: if_splits sum.splits
             dest!: read_detected_other_channel)
next
  case False
  with assms(2,3) show ?thesis by (auto simp: loop_body_def)
qed

lemma loop_body_no_marker_1:
  assumes "\<not> has_marker ''1'' sensorData"
    and "loop_body sensorData (i, thisSensor, st) = Inr (i', thisSensor', st')"
    and "thisSensor \<noteq> 1"
  shows "thisSensor' \<noteq> 1
       \<and> sensor1State st' = sensor1State st \<and> sensor1Temp st' = sensor1Temp st
       \<and> sensor1Humid st' = sensor1Humid st"
proof (cases "tok sensorData i = Some ''SHT''")
  case True
  then have no1: "tok sensorData (Suc i) \<noteq> Some ''1''"
    using assms(1) has_marker_tok by blast
  show ?thesis
    using assms(2,3) True no1 mark_fault_other_channel [of 2 st]
      mark_fault_other_channel [of thisSensor st]
    by (auto simp: loop_body_def Let_def split: if_splits sum.splits
             dest!: read_detected_other_channel)
next
  case False
  with assms(2,3) show ?thesis by (auto simp: loop_body_def)
qed


lemma scan_loop_no_marker_2:
  "\<not> has_marker ''2'' sensorData \<Longrightarrow> thisSensor = 0 \<or> thisSensor = 1 \<Longrightarrow>
   scan_loop sensorData (i, thisSensor, st) = (r, st') \<Longrightarrow>
     sensor2State st' = sensor2State st \<and> sensor2Temp st' = sensor2Temp st
     \<and> sensor2Humid st' = sensor2Humid st"
proof (induction sensorData "(i, thisSensor, st)" arbitrary: i thisSensor st
       rule: scan_loop.induct)
  case (1 sensorData i thisSensor st)
  show ?case
  proof (cases "loop_body sensorData (i, thisSensor, st)")
    case (Inl e)
    with "1.prems" show ?thesis by simp
  next
    case (Inr v)
    obtain i' thisSensor' st1 where v: "v = (i', thisSensor', st1)"
      by (cases v) auto
    have b: "(thisSensor' = 0 \<or> thisSensor' = 1)
       \<and> sensor2State st1 = sensor2State st \<and> sensor2Temp st1 = sensor2Temp st
       \<and> sensor2Humid st1 = sensor2Humid st"
      using loop_body_no_marker_2 [OF "1.prems"(1) _ "1.prems"(2)] Inr v by blast
    show ?thesis
    proof (cases "Suc i' < length sensorData")
      case True
      with "1.prems" Inr v have "scan_loop sensorData (Suc i', thisSensor', st1) = (r, st')"
        by simp
      with "1.hyps" [OF Inr v [symmetric] refl True "1.prems"(1)] b show ?thesis by simp
    next
      case False
      with "1.prems" Inr v b show ?thesis by simp
    qed
  qed
qed

lemma scan_loop_no_marker_1:
  "\<not> has_marker ''1'' sensorData \<Longrightarrow> thisSensor \<noteq> 1 \<Longrightarrow>
   scan_loop sensorData (i, thisSensor, st) = (r, st') \<Longrightarrow>
     sensor1State st' = sensor1State st \<and> sensor1Temp st' = sensor1Temp st
     \<and> sensor1Humid st' = sensor1Humid st"
proof (induction sensorData "(i, thisSensor, st)" arbitrary: i thisSensor st
       rule: scan_loop.induct)
  case (1 sensorData i thisSensor st)
  show ?case
  proof (cases "loop_body sensorData (i, thisSensor, st)")
    case (Inl e)
    with "1.prems" show ?thesis by simp
  next
    case (Inr v)
    obtain i' thisSensor' st1 where v: "v = (i', thisSensor', st1)"
      by (cases v) auto
    have b: "thisSensor' \<noteq> 1
       \<and> sensor1State st1 = sensor1State st \<and> sensor1Temp st1 = sensor1Temp st
       \<and> sensor1Humid st1 = sensor1Humid st"
      using loop_body_no_marker_1 [OF "1.prems"(1) _ "1.prems"(2)] Inr v by blast
    show ?thesis
    proof (cases "Suc i' < length sensorData")
      case True
      with "1.prems" Inr v have "scan_loop sensorData (Suc i', thisSensor', st1) = (r, st')"
        by simp
      with "1.hyps" [OF Inr v [symmetric] refl True "1.prems"(1)] b show ?thesis by simp
    next
      case False
      with "1.prems" Inr v b show ?thesis by simp
    qed
  qed
qed

lemma update_alert_channels:
  "sensor1State (update_alert t st) = sensor1State st \<and> sensor1Temp (update_alert t st) = sensor1Temp st
   \<and> sensor2State (update_alert t st) = sensor2State st \<and> sensor2Temp (update_alert t st) = sensor2Temp st"
  by (simp add: update_alert_def)

text \<open>
  Claim C7. When the payload holds no record marker for a channel (no token \<open>SHT\<close>
  followed by the channel's index), the timer callback leaves the health, the temperature
  and the humidity of that channel exactly as they were, whether it runs to its end or
  is left by an exception.
\<close>

theorem absent_channel_unchanged:
  assumes "process_data alertThreshold rawData st = (r, st')"
  shows "(\<not> has_marker ''1'' (sensorData_of rawData) \<longrightarrow>
            sensor1State st' = sensor1State st \<and> sensor1Temp st' = sensor1Temp st
            \<and> sensor1Humid st' = sensor1Humid st)
       \<and> (\<not> has_marker ''2'' (sensorData_of rawData) \<longrightarrow>
            sensor2State st' = sensor2State st \<and> sensor2Temp st' = sensor2Temp st
            \<and> sensor2Humid st' = sensor2Humid st)"
proof -
  obtain r1 s1 where sc: "scan_loop (sensorData_of rawData) (0, 0, st) = (r1, s1)"
    by (cases "scan_loop (sensorData_of rawData) (0, 0, st)") auto
  have st': "st' = s1 \<or> st' = update_alert alertThreshold s1"
    using assms sc by (auto simp: process_data_def split: option.splits)
  have same: "sensor1State st' = sensor1State s1 \<and> sensor1Temp st' = sensor1Temp s1
      \<and> sensor1Humid st' = sensor1Humid s1 \<and> sensor2State st' = sensor2State s1
      \<and> sensor2Temp st' = sensor2Temp s1 \<and> sensor2Humid st' = sensor2Humid s1"
    using st' update_alert_channels [of alertThreshold s1] update_alert_humid [of alertThreshold s1]
    by auto
  have one: "\<not> has_marker ''1'' (sensorData_of rawData) \<longrightarrow>
            sensor1State s1 = sensor1State st \<and> sensor1Temp s1 = sensor1Temp st
            \<and> sensor1Humid s1 = sensor1Humid st"
    using scan_loop_no_marker_1 [OF _ _ sc] by simp
  have two: "\<not> has_marker ''2'' (sensorData_of rawData) \<longrightarrow>
            sensor2State s1 = sensor2State st \<and> sensor2Temp s1 = sensor2Temp st
            \<and> sensor2Humid s1 = sensor2Humid st"
    using scan_loop_no_marker_2 [OF _ _ sc] by simp
  show ?thesis
    using same one two by simp
qed

theorem absent_channel_unchanged_witness:
  "process_data (Fin 90) ''SHT,1,A,Detected,20,20,20,91%,91%,91%''
     (initial_state\<lparr>sensor2State := GENERAL_FAULT, sensor2Temp := Fin 21, sensor2Humid := Fin 55\<rparr>)
   = (None, initial_state\<lparr>AlertState := LEAK_DETECTED, sensor1Temp := Fin 20,
                            sensor1Humid := Fin 91, sensor2State := GENERAL_FAULT,
                            sensor2Temp := Fin 21, sensor2Humid := Fin 55\<rparr>)
   \<and> \<not> has_marker ''2'' (sensorData_of ''SHT,1,A,Detected,20,20,20,91%,91%,91%'')
   \<and> has_marker ''1'' (sensorData_of ''SHT,1,A,Detected,20,20,20,91%,91%,91%'')"
proof -
  have r: "process_data (Fin 90) ''SHT,1,A,Detected,20,20,20,91%,91%,91%''
     (initial_state\<lparr>sensor2State := GENERAL_FAULT, sensor2Temp := Fin 21, sensor2Humid := Fin 55\<rparr>)
   = (None, initial_state\<lparr>AlertState := LEAK_DETECTED, sensor1Temp := Fin 20,
                            sensor1Humid := Fin 91, sensor2State := GENERAL_FAULT,
                            sensor2Temp := Fin 21, sensor2Humid := Fin 55\<rparr>)"
    by code_simp
  have m: "\<not> has_marker ''2'' (sensorData_of ''SHT,1,A,Detected,20,20,20,91%,91%,91%'')"
    "has_marker ''1'' (sensorData_of ''SHT,1,A,Detected,20,20,20,91%,91%,91%'')"
    by code_simp+
  show ?thesis
    using absent_channel_unchanged [OF r] r m by simp
qed


subsection \<open>A failed fetch\<close>

lemma no_response_200_rawData:
  "HttpResponse 200 \<notin> set events \<Longrightarrow> foldl on_event ([], False) events = ([], False)"
proof (induction events)
  case Nil
  show ?case by simp
next
  case (Cons e es)
  then have "on_event ([], False) e = ([], False)"
    by (cases e) auto
  with Cons show ?case by simp
qed

lemma process_data_empty:
  "process_data alertThreshold [] st = (None, update_alert alertThreshold st)"
  by (simp add: process_data_def sensorData_of_def trim_def loop_body_def tok_def)

lemma update_alert_deviceState:
  "deviceState (update_alert alertThreshold st) = deviceState st"
  by (simp add: update_alert_def)

lemma listening_collects:
  "foldl on_event (rawData, True) (map HttpData chunks) = (rawData @ concat chunks, True)"
  by (induction chunks arbitrary: rawData) simp_all

lemma listening_collects_part001:
  "foldl on_event_part001 (rawData, True, st) (map HttpData chunks)
     = (rawData @ concat chunks, True, st)"
  by (induction chunks arbitrary: rawData) simp_all

text \<open>
  Claim C3, as amended. In index.js a cycle in which no response with status 200
  arrives (a connection error, nothing within the 3 seconds, another status) runs to its
  end with the four numeric channel fields unchanged, and \<open>deviceState\<close> is not written: it
  keeps its value. In the second copy (part_001) a connection error or a status other
  than 200 sets \<open>deviceState\<close> to \<open>GENERAL_FAULT\<close> and changes nothing else, while a fetch
  that delivers nothing within the 3 seconds leaves the four numeric fields and
  \<open>deviceState\<close> as they were. A transfer that has delivered status 200 and part of the
  body when the 3 seconds end, or that breaks with an error after that, is not a failure
  for index.js: the text received so far is processed like a complete payload. The
  second copy does the same when the 3 seconds end in the middle of the body (with
  \<open>deviceState = NO_FAULT\<close>), and after an error in the middle of the body it sets
  \<open>deviceState\<close> to \<open>GENERAL_FAULT\<close> and changes nothing else.
\<close>

theorem transport_failure_keeps_readings:
  "(HttpResponse 200 \<notin> set events \<longrightarrow>
      (\<exists>st'. pollSensorState alertThreshold events st = (None, st')
         \<and> (sensor1Temp st', sensor1Humid st', sensor2Temp st', sensor2Humid st')
             = (sensor1Temp st, sensor1Humid st, sensor2Temp st, sensor2Humid st)
         \<and> deviceState st' = deviceState st))
   \<and> (events = [HttpError] \<or> (\<exists>statusCode. statusCode \<noteq> 200 \<and> events = [HttpResponse statusCode]) \<longrightarrow>
        pollSensorState_part001 alertThreshold events st = (None, st\<lparr>deviceState := GENERAL_FAULT\<rparr>))
   \<and> (\<exists>st'. pollSensorState_part001 alertThreshold [] st = (None, st')
         \<and> (sensor1Temp st', sensor1Humid st', sensor2Temp st', sensor2Humid st')
             = (sensor1Temp st, sensor1Humid st, sensor2Temp st, sensor2Humid st)
         \<and> deviceState st' = deviceState st)
   \<and> (ending = [] \<or> ending = [HttpError] \<longrightarrow>
        pollSensorState alertThreshold (HttpResponse 200 # map HttpData chunks @ ending) st
          = process_data alertThreshold (concat chunks) st)
   \<and> pollSensorState_part001 alertThreshold (HttpResponse 200 # map HttpData chunks) st
        = process_data alertThreshold (concat chunks) (st\<lparr>deviceState := NO_FAULT\<rparr>)
   \<and> pollSensorState_part001 alertThreshold (HttpResponse 200 # map HttpData chunks @ [HttpError]) st
        = (None, st\<lparr>deviceState := GENERAL_FAULT\<rparr>)"
proof -
  have keep: "(sensor1Temp (update_alert alertThreshold st), sensor1Humid (update_alert alertThreshold st),
               sensor2Temp (update_alert alertThreshold st), sensor2Humid (update_alert alertThreshold st))
             = (sensor1Temp st, sensor1Humid st, sensor2Temp st, sensor2Humid st)
           \<and> deviceState (update_alert alertThreshold st) = deviceState st"
    by (simp add: update_alert_def)
  have a: "HttpResponse 200 \<notin> set events \<longrightarrow>
      (\<exists>st'. pollSensorState alertThreshold events st = (None, st')
         \<and> (sensor1Temp st', sensor1Humid st', sensor2Temp st', sensor2Humid st')
             = (sensor1Temp st, sensor1Humid st, sensor2Temp st, sensor2Humid st)
         \<and> deviceState st' = deviceState st)"
    using keep by (auto simp: pollSensorState_def no_response_200_rawData process_data_empty)
  have b: "events = [HttpError] \<or> (\<exists>statusCode. statusCode \<noteq> 200 \<and> events = [HttpResponse statusCode]) \<longrightarrow>
        pollSensorState_part001 alertThreshold events st = (None, st\<lparr>deviceState := GENERAL_FAULT\<rparr>)"
    by (auto simp: pollSensorState_part001_def)
  have c: "\<exists>st'. pollSensorState_part001 alertThreshold [] st = (None, st')
         \<and> (sensor1Temp st', sensor1Humid st', sensor2Temp st', sensor2Humid st')
             = (sensor1Temp st, sensor1Humid st, sensor2Temp st, sensor2Humid st)
         \<and> deviceState st' = deviceState st"
    using keep by (auto simp: pollSensorState_part001_def process_data_empty)
  have d: "ending = [] \<or> ending = [HttpError] \<longrightarrow>
        pollSensorState alertThreshold (HttpResponse 200 # map HttpData chunks @ ending) st
          = process_data alertThreshold (concat chunks) st"
    by (auto simp: pollSensorState_def listening_collects)
  have e: "pollSensorState_part001 alertThreshold (HttpResponse 200 # map HttpData chunks) st
        = process_data alertThreshold (concat chunks) (st\<lparr>deviceState := NO_FAULT\<rparr>)"
    by (simp add: pollSensorState_part001_def listening_collects_part001)
  have f: "pollSensorState_part001 alertThreshold
             (HttpResponse 200 # map HttpData chunks @ [HttpError]) st
        = (None, st\<lparr>deviceState := GENERAL_FAULT\<rparr>)"
    by (simp add: pollSensorState_part001_def listening_collects_part001)
  from a b c d e f show ?thesis by blast
qed

theorem transport_failure_keeps_readings_witness:
  "HttpResponse 200 \<notin> set [HttpResponse 404]
   \<and> (\<exists>st'. pollSensorState (Fin 90) [HttpResponse 404]
               (initial_state\<lparr>sensor1Temp := Fin 20, sensor1Humid := Fin 50\<rparr>) = (None, st')
          \<and> sensor1Temp st' = Fin 20 \<and> sensor1Humid st' = Fin 50 \<and> deviceState st' = NO_FAULT)
   \<and> pollSensorState_part001 (Fin 90) [HttpResponse 404]
        (initial_state\<lparr>sensor1Temp := Fin 20, sensor1Humid := Fin 50\<rparr>)
      = (None, initial_state\<lparr>deviceState := GENERAL_FAULT, sensor1Temp := Fin 20,
                               sensor1Humid := Fin 50\<rparr>)
   \<and> pollSensorState (Fin 90)
        (HttpResponse 200 # map HttpData [''SHT,2,B,Fai'', ''led,0,0''] @ [HttpError])
        (initial_state\<lparr>sensor1Temp := Fin 20, sensor1Humid := Fin 50\<rparr>)
      = process_data (Fin 90) (concat [''SHT,2,B,Fai'', ''led,0,0''])
          (initial_state\<lparr>sensor1Temp := Fin 20, sensor1Humid := Fin 50\<rparr>)
   \<and> process_data (Fin 90) (concat [''SHT,2,B,Fai'', ''led,0,0''])
          (initial_state\<lparr>sensor1Temp := Fin 20, sensor1Humid := Fin 50\<rparr>)
      = (None, initial_state\<lparr>sensor1Temp := Fin 20, sensor1Humid := Fin 50,
                               sensor2State := GENERAL_FAULT\<rparr>)"
proof -
  have p: "process_data (Fin 90) (concat [''SHT,2,B,Fai'', ''led,0,0''])
          (initial_state\<lparr>sensor1Temp := Fin 20, sensor1Humid := Fin 50\<rparr>)
      = (None, initial_state\<lparr>sensor1Temp := Fin 20, sensor1Humid := Fin 50,
                               sensor2State := GENERAL_FAULT\<rparr>)"
    by code_simp
  have h: "[HttpError] = [] \<or> [HttpError] = [HttpError]"
    by simp
  show ?thesis
    using transport_failure_keeps_readings
          [where events = "[HttpResponse 404]" and alertThreshold = "Fin 90"
             and st = "initial_state\<lparr>sensor1Temp := Fin 20, sensor1Humid := Fin 50\<rparr>"
             and ending = "[HttpError]" and chunks = "[''SHT,2,B,Fai'', ''led,0,0'']"] h p
    by (auto simp: initial_state_def)
qed

text \<open>
  The claim as the specification has it fails in both of its parts. The flag is not
  raised: after a connection error or a status 500, index.js still has
  \<open>deviceState = NO_FAULT\<close>, and so has the second copy after a timeout. And the numeric
  fields are not always kept: when the 3 seconds end after status 200 and a part of the
  body, both copies process the part, here a record cut in its last humidity token, and
  publish 20 and 33.33 where 21 and 50 stood.
\<close>

theorem transport_failure_counterexample:
  "pollSensorState (Fin 90) [HttpError] initial_state = (None, initial_state)
   \<and> pollSensorState (Fin 90) [HttpResponse 500] initial_state = (None, initial_state)
   \<and> pollSensorState_part001 (Fin 90) [] initial_state = (None, initial_state)
   \<and> deviceState initial_state = NO_FAULT
   \<and> pollSensorState (Fin 90)
        [HttpResponse 200, HttpData ''SHT,1,A,Detected,20,20,20,50%,50%,5'']
        (initial_state\<lparr>sensor1Temp := Fin 21, sensor1Humid := Fin 50\<rparr>)
      = (None, initial_state\<lparr>sensor1Temp := Fin 20,
                               sensor1Humid := Fin (4691249611844267 / 140737488355328)\<rparr>)
   \<and> pollSensorState_part001 (Fin 90)
        [HttpResponse 200, HttpData ''SHT,1,A,Detected,20,20,20,50%,50%,5'']
        (initial_state\<lparr>sensor1Temp := Fin 21, sensor1Humid := Fin 50\<rparr>)
      = (None, initial_state\<lparr>sensor1Temp := Fin 20,
                               sensor1Humid := Fin (4691249611844267 / 140737488355328)\<rparr>)
   \<and> Fin 50 \<noteq> Fin (4691249611844267 / 140737488355328)"
  by code_simp

subsection \<open>The scheduler\<close>

lemma fresh_clearTimeout:
  "fresh_handles s \<Longrightarrow>
     (\<forall>t \<in> set (timers (clearTimeout h s)). fst t < next_handle s)
     \<and> distinct (map fst (timers (clearTimeout h s)))
     \<and> set (timers (clearTimeout h s)) \<subseteq> set (timers s)
     \<and> (\<forall>cb. (h, cb) \<notin> set (timers (clearTimeout h s)))
     \<and> next_handle (clearTimeout h s) = next_handle s
     \<and> stateTimer (clearTimeout h s) = stateTimer s"
  by (auto simp: fresh_handles_def clearTimeout_def distinct_map_filter)

lemma fresh_pollState: "fresh_handles s \<Longrightarrow> fresh_handles (pollState s)"
proof (cases "stateTimer s")
  case None
  assume f: "fresh_handles s"
  then have "\<forall>h. (h, PollTimer) \<notin> set (timers s)"
    using None by (auto simp: fresh_handles_def)
  with f None show ?thesis
    by (fastforce simp: fresh_handles_def pollState_def setTimeout_def)
next
  case (Some h)
  assume f: "fresh_handles s"
  have "\<forall>h'. (h', PollTimer) \<notin> set (timers (clearTimeout h s))"
    using f Some fresh_clearTimeout [OF f, of h] by (auto simp: fresh_handles_def)
  with f Some fresh_clearTimeout [OF f, of h] show ?thesis
    by (fastforce simp: fresh_handles_def pollState_def setTimeout_def clearTimeout_def)
qed


lemma fresh_setTimeout_process:
  "fresh_handles s \<Longrightarrow> fresh_handles (setTimeout ProcessTimer s)"
  by (fastforce simp: fresh_handles_def setTimeout_def)

lemma fresh_step: "fresh_handles s \<Longrightarrow> fresh_handles (step s e)"
proof (cases e)
  case GetServices
  assume f: "fresh_handles s"
  then have "fresh_handles (page_get s)"
    by (simp add: fresh_handles_def page_get_def)
  with GetServices show ?thesis
    by (simp add: getServices_def fresh_pollState)
next
  case RequestDone
  assume "fresh_handles s"
  with RequestDone show ?thesis by (simp add: fresh_handles_def)
next
  case (Fire h outcome)
  assume f: "fresh_handles s"
  have c: "fresh_handles (clearTimeout h s)"
    using f by (auto simp: fresh_handles_def clearTimeout_def distinct_map_filter)
  show ?thesis
  proof (cases "map_of (timers s) h")
    case None
    with Fire f show ?thesis by (simp add: fire_def)
  next
    case (Some cb)
    show ?thesis
    proof (cases cb)
      case PollTimer
      have "fresh_handles (page_get (clearTimeout h s))"
        using c by (simp add: fresh_handles_def page_get_def)
      then show ?thesis
        using Fire Some PollTimer
        by (simp add: fire_def pollSensorState_sched_def fresh_setTimeout_process)
    next
      case ProcessTimer
      then show ?thesis
        using Fire Some c by (cases outcome) (simp_all add: fire_def fresh_pollState)
    qed
  qed
qed

lemma fresh_foldl: "fresh_handles s \<Longrightarrow> fresh_handles (foldl step s evs)"
  by (induction evs arbitrary: s) (simp_all add: fresh_step)

lemma fresh_run: "fresh_handles (run evs)"
  unfolding run_def by (rule fresh_foldl) (simp add: fresh_handles_def initial_scheduler_def)

lemma distinct_all_equal: "distinct xs \<Longrightarrow> \<forall>x \<in> set xs. x = a \<Longrightarrow> length xs \<le> 1"
  by (cases xs rule: list.exhaust; cases "tl xs") auto

lemma fresh_poll_triggers: "fresh_handles s \<Longrightarrow> poll_triggers s \<le> 1"
proof -
  assume f: "fresh_handles s"
  let ?ps = "filter (\<lambda>t. snd t = PollTimer) (timers s)"
  have d: "distinct ?ps"
    using f by (simp add: fresh_handles_def distinct_map)
  show ?thesis
  proof (cases "stateTimer s")
    case None
    with f have "?ps = []"
      by (auto simp: fresh_handles_def filter_empty_conv)
    then show ?thesis by (simp add: poll_triggers_def)
  next
    case (Some h)
    with f have "\<forall>x \<in> set ?ps. x = (h, PollTimer)"
      by (auto simp: fresh_handles_def)
    with d show ?thesis
      unfolding poll_triggers_def by (rule distinct_all_equal)
  qed
qed


lemma single_timer_cases:
  assumes "single_timer s"
  obtains "timers s = []"
  | h where "timers s = [(h, PollTimer)]" "stateTimer s = Some h"
  | h where "timers s = [(h, ProcessTimer)]"
proof (cases "timers s")
  case Nil
  then show ?thesis using that(1) by simp
next
  case (Cons t ts)
  with assms have ts: "ts = []" by (simp add: single_timer_def)
  obtain h cb where t: "t = (h, cb)" by (cases t)
  show ?thesis
  proof (cases cb)
    case PollTimer
    with assms Cons ts t show ?thesis using that(2) by (simp add: single_timer_def)
  next
    case ProcessTimer
    with Cons ts t show ?thesis using that(3) by simp
  qed
qed

lemma single_timer_pollState:
  assumes "single_timer s" and "windows s = 0"
  shows "single_timer (pollState s)"
  using assms(1)
proof (cases rule: single_timer_cases)
  case 1
  then show ?thesis
    by (cases "stateTimer s")
       (simp_all add: single_timer_def pollState_def setTimeout_def clearTimeout_def)
next
  case (2 h)
  then show ?thesis
    by (simp add: single_timer_def pollState_def setTimeout_def clearTimeout_def)
next
  case (3 h)
  with assms(2) show ?thesis by (simp add: windows_def)
qed

lemma single_timer_step:
  assumes "single_timer s" and "e \<noteq> GetServices \<or> windows s = 0"
  shows "single_timer (step s e)"
proof (cases e)
  case GetServices
  with assms(2) have w: "windows (page_get s) = 0"
    by (simp add: windows_def page_get_def)
  from assms(1) have "single_timer (page_get s)"
    by (simp add: single_timer_def page_get_def)
  with w GetServices show ?thesis
    by (simp add: getServices_def single_timer_pollState)
next
  case RequestDone
  with assms(1) show ?thesis by (simp add: single_timer_def)
next
  case (Fire h outcome)
  from assms(1) show ?thesis
  proof (cases rule: single_timer_cases)
    case 1
    with Fire assms(1) show ?thesis by (simp add: fire_def)
  next
    case (2 h')
    with Fire assms(1) show ?thesis
      by (auto simp: fire_def single_timer_def pollSensorState_sched_def setTimeout_def
                     clearTimeout_def page_get_def)
  next
    case (3 h')
    have e: "single_timer (s\<lparr>timers := []\<rparr>)" "windows (s\<lparr>timers := []\<rparr>) = 0"
      by (simp_all add: single_timer_def windows_def)
    show ?thesis
    proof (cases "h = h'")
      case True
      with 3 have c: "clearTimeout h s = s\<lparr>timers := []\<rparr>"
        by (simp add: clearTimeout_def)
      show ?thesis
        using Fire 3 True c e single_timer_pollState [OF e]
        by (cases outcome) (simp_all add: fire_def)
    next
      case False
      with Fire 3 assms(1) show ?thesis by (simp add: fire_def)
    qed
  qed
qed

lemma single_timer_foldl:
  "single_timer s \<Longrightarrow> started_outside_window s evs \<Longrightarrow> single_timer (foldl step s evs)"
  by (induction evs arbitrary: s) (simp_all add: single_timer_step)

lemma timers_split: "poll_triggers s + windows s = length (timers s)"
proof -
  have "(\<lambda>t. snd t = ProcessTimer) = (\<lambda>t :: nat \<times> callback. \<not> snd t = PollTimer)"
    by (rule ext) (metis callback.exhaust callback.distinct(1))
  then show ?thesis
    unfolding poll_triggers_def windows_def by (simp add: sum_length_filter_compl)
qed

text \<open>
  Claim C8, as amended. Whatever happens, at most one poll trigger is pending:
  \<open>pollState\<close> cancels the one it holds before it arms the next, so starting twice in
  succession leaves one. And as long as \<open>getServices\<close> is not called while a processing
  window is open, at most one timeout of either kind is pending: never two processing
  windows, never a window together with a poll trigger, because the trigger is armed
  again only by the processing callback of the cycle before.
\<close>

theorem one_trigger_one_window:
  "poll_triggers (run evs) \<le> 1
   \<and> (started_outside_window initial_scheduler evs \<longrightarrow>
        poll_triggers (run evs) + windows (run evs) \<le> 1)"
proof -
  have i: "single_timer initial_scheduler"
    by (simp add: single_timer_def initial_scheduler_def)
  have "started_outside_window initial_scheduler evs \<longrightarrow> single_timer (run evs)"
    unfolding run_def using single_timer_foldl [OF i] by blast
  then show ?thesis
    using fresh_poll_triggers [OF fresh_run, of evs] timers_split [of "run evs"]
    by (auto simp: single_timer_def)
qed

theorem one_trigger_one_window_witness:
  "started_outside_window initial_scheduler
     [GetServices, GetServices, Fire 1 None, Fire 2 None, Fire 3 None]
   \<and> run [GetServices, GetServices, Fire 1 None, Fire 2 None, Fire 3 None]
       = \<lparr>timers = [(4, ProcessTimer)], next_handle = 5, stateTimer = Some 3, requests = 4\<rparr>
   \<and> poll_triggers (run [GetServices, GetServices, Fire 1 None, Fire 2 None, Fire 3 None])
       + windows (run [GetServices, GetServices, Fire 1 None, Fire 2 None, Fire 3 None]) \<le> 1"
proof -
  have g: "started_outside_window initial_scheduler
     [GetServices, GetServices, Fire 1 None, Fire 2 None, Fire 3 None]"
    by code_simp
  have r: "run [GetServices, GetServices, Fire 1 None, Fire 2 None, Fire 3 None]
       = \<lparr>timers = [(4, ProcessTimer)], next_handle = 5, stateTimer = Some 3, requests = 4\<rparr>"
    by code_simp
  show ?thesis
    using one_trigger_one_window [of "[GetServices, GetServices, Fire 1 None, Fire 2 None, Fire 3 None]"]
      g r by simp
qed

text \<open>
  The condition on \<open>getServices\<close> is needed in this model, which orders events and has no
  clock: a call inside a processing window arms a poll trigger beside the window, and if
  that trigger fires before the window closes (which takes a poll interval shorter than
  the rest of the 3 seconds) two windows are open.
\<close>

lemma getServices_inside_window:
  "windows (run [GetServices, Fire 0 None, GetServices, Fire 2 None]) = 2"
  by code_simp

text \<open>
  The request itself is neither awaited nor cancelled. When the request of one cycle
  has not finished by the time the next poll trigger fires, the plugin issues the next
  request: two fetches are in flight.
\<close>

theorem overlapping_requests_counterexample:
  "started_outside_window initial_scheduler
     [GetServices, RequestDone, Fire 0 None, Fire 1 None, Fire 2 None]
   \<and> run [GetServices, RequestDone, Fire 0 None, Fire 1 None, Fire 2 None]
       = \<lparr>timers = [(3, ProcessTimer)], next_handle = 4, stateTimer = Some 2, requests = 2\<rparr>"
  by code_simp


lemma pollState_timers:
  "timers (pollState s) =
     (case stateTimer s of
        None \<Rightarrow> timers s
      | Some h \<Rightarrow> filter (\<lambda>t. fst t \<noteq> h) (timers s)) @ [(next_handle s, PollTimer)]
   \<and> next_handle (pollState s) = Suc (next_handle s)
   \<and> stateTimer (pollState s) = Some (next_handle s)"
  by (simp add: pollState_def setTimeout_def clearTimeout_def split: option.split)

text \<open>
  Claim C9, as amended. The plugin has no stop operation. Its one operation on the
  trigger, \<open>pollState\<close>, always arms a new trigger, with or without one pending before; it
  cancels the trigger held in \<open>stateTimer\<close>; and a second call in succession leaves the
  same pending callbacks as the first (only the handle of the trigger is new).
\<close>

theorem pollState_cancels_and_rearms:
  "stateTimer (pollState s) = Some (next_handle s)
   \<and> (next_handle s, PollTimer) \<in> set (timers (pollState s))
   \<and> (\<forall>h. stateTimer s = Some h \<and> h < next_handle s \<longrightarrow>
          h \<notin> fst ` set (timers (pollState s)))
   \<and> ((\<forall>t \<in> set (timers s). fst t < next_handle s) \<longrightarrow>
          map snd (timers (pollState (pollState s))) = map snd (timers (pollState s)))"
proof -
  have a: "stateTimer (pollState s) = Some (next_handle s)
           \<and> (next_handle s, PollTimer) \<in> set (timers (pollState s))"
    by (simp add: pollState_timers)
  have b: "\<forall>h. stateTimer s = Some h \<and> h < next_handle s \<longrightarrow>
          h \<notin> fst ` set (timers (pollState s))"
    by (auto simp: pollState_timers)
  have c: "(\<forall>t \<in> set (timers s). fst t < next_handle s) \<longrightarrow>
          map snd (timers (pollState (pollState s))) = map snd (timers (pollState s))"
  proof
    assume f: "\<forall>t \<in> set (timers s). fst t < next_handle s"
    let ?ts = "case stateTimer s of None \<Rightarrow> timers s
               | Some h \<Rightarrow> filter (\<lambda>t. fst t \<noteq> h) (timers s)"
    have "\<forall>t \<in> set ?ts. fst t \<noteq> next_handle s"
      using f by (auto split: option.splits)
    then have "filter (\<lambda>t. fst t \<noteq> next_handle s) ?ts = ?ts"
      by (simp add: filter_id_conv)
    then have "timers (pollState (pollState s)) = ?ts @ [(Suc (next_handle s), PollTimer)]"
      using pollState_timers [of "pollState s"] pollState_timers [of s] by simp
    then show "map snd (timers (pollState (pollState s))) = map snd (timers (pollState s))"
      using pollState_timers [of s] by simp
  qed
  from a b c show ?thesis by blast
qed

theorem pollState_cancels_and_rearms_witness:
  "run [GetServices] = \<lparr>timers = [(0, PollTimer)], next_handle = 1, stateTimer = Some 0, requests = 1\<rparr>
   \<and> pollState (run [GetServices])
       = \<lparr>timers = [(1, PollTimer)], next_handle = 2, stateTimer = Some 1, requests = 1\<rparr>
   \<and> 0 \<notin> fst ` set (timers (pollState (run [GetServices])))
   \<and> map snd (timers (pollState (pollState (run [GetServices])))) = [PollTimer]"
proof -
  have r: "run [GetServices]
           = \<lparr>timers = [(0, PollTimer)], next_handle = 1, stateTimer = Some 0, requests = 1\<rparr>"
    by code_simp
  have p: "pollState (run [GetServices])
           = \<lparr>timers = [(1, PollTimer)], next_handle = 2, stateTimer = Some 1, requests = 1\<rparr>"
    by code_simp
  show ?thesis
    using pollState_cancels_and_rearms [of "run [GetServices]"] r p by simp
qed

text \<open>
  Once the scheduler is started, nothing that can happen to it next leaves it without a
  pending timeout.
\<close>

theorem no_stop_operation_counterexample:
  "\<not> (\<exists>e. timers (step (run [GetServices]) e) = [])"
proof -
  have r: "run [GetServices]
           = \<lparr>timers = [(0, PollTimer)], next_handle = 1, stateTimer = Some 0, requests = 1\<rparr>"
    by code_simp
  have "timers (step (run [GetServices]) e) \<noteq> []" for e
    unfolding r
    by (cases e)
       (auto simp: getServices_def pollState_def setTimeout_def clearTimeout_def page_get_def
                   fire_def pollSensorState_sched_def)
  then show ?thesis by blast
qed

end
